theory Spec2Isabelle
  imports Complex_Main "HOL-Library.Word" "HOL-Library.AList"
begin

unbundle bit_operations_syntax

section \<open>Strings, UTF-8 and the MD5 digest\<close>

text \<open>
  A Python \<open>str\<close> is modelled as an Isabelle \<open>string\<close> whose characters are the code
  points U+0000 to U+00FF. \<open>str.encode()\<close> (UTF-8 by default) writes a code point below
  128 as one byte and a code point from 128 to 255 as two bytes.
\<close>

type_synonym byte = "8 word"
type_synonym u32 = "32 word"

definition utf8_char :: "char \<Rightarrow> byte list" where
  "utf8_char c = (let n = (of_char c :: nat) in
     if n < 128 then [of_nat n]
     else [of_nat (192 + n div 64), of_nat (128 + n mod 64)])"

definition encode :: "string \<Rightarrow> byte list" where
  "encode s = concat (map utf8_char s)"

text \<open>
  \<open>hashlib.md5(data).hexdigest()\<close> is the MD5 message digest of RFC 1321, printed as 32
  lowercase hexadecimal digits. The table \<open>md5_K\<close> holds the 64 sine-derived constants
  and \<open>md5_S\<close> the per-round rotation amounts.
\<close>

definition md5_K :: "u32 list" where
  "md5_K = [
     0xd76aa478, 0xe8c7b756, 0x242070db, 0xc1bdceee, 0xf57c0faf, 0x4787c62a, 0xa8304613, 0xfd469501,
     0x698098d8, 0x8b44f7af, 0xffff5bb1, 0x895cd7be, 0x6b901122, 0xfd987193, 0xa679438e, 0x49b40821,
     0xf61e2562, 0xc040b340, 0x265e5a51, 0xe9b6c7aa, 0xd62f105d, 0x02441453, 0xd8a1e681, 0xe7d3fbc8,
     0x21e1cde6, 0xc33707d6, 0xf4d50d87, 0x455a14ed, 0xa9e3e905, 0xfcefa3f8, 0x676f02d9, 0x8d2a4c8a,
     0xfffa3942, 0x8771f681, 0x6d9d6122, 0xfde5380c, 0xa4beea44, 0x4bdecfa9, 0xf6bb4b60, 0xbebfbc70,
     0x289b7ec6, 0xeaa127fa, 0xd4ef3085, 0x04881d05, 0xd9d4d039, 0xe6db99e5, 0x1fa27cf8, 0xc4ac5665,
     0xf4292244, 0x432aff97, 0xab9423a7, 0xfc93a039, 0x655b59c3, 0x8f0ccc92, 0xffeff47d, 0x85845dd1,
     0x6fa87e4f, 0xfe2ce6e0, 0xa3014314, 0x4e0811a1, 0xf7537e82, 0xbd3af235, 0x2ad7d2bb, 0xeb86d391]"

definition md5_S :: "nat list" where
  "md5_S = [7, 12, 17, 22, 7, 12, 17, 22, 7, 12, 17, 22, 7, 12, 17, 22,
            5, 9, 14, 20, 5, 9, 14, 20, 5, 9, 14, 20, 5, 9, 14, 20,
            4, 11, 16, 23, 4, 11, 16, 23, 4, 11, 16, 23, 4, 11, 16, 23,
            6, 10, 15, 21, 6, 10, 15, 21, 6, 10, 15, 21, 6, 10, 15, 21]"

definition rotl32 :: "u32 \<Rightarrow> nat \<Rightarrow> u32" where
  "rotl32 x s = push_bit s x OR drop_bit (32 - s) x"

definition md5_F :: "nat \<Rightarrow> u32 \<Rightarrow> u32 \<Rightarrow> u32 \<Rightarrow> u32" where
  "md5_F i b c d =
     (if i < 16 then (b AND c) OR (NOT b AND d)
      else if i < 32 then (d AND b) OR (NOT d AND c)
      else if i < 48 then b XOR c XOR d
      else c XOR (b OR NOT d))"

definition md5_g :: "nat \<Rightarrow> nat" where
  "md5_g i =
     (if i < 16 then i
      else if i < 32 then (5 * i + 1) mod 16
      else if i < 48 then (3 * i + 5) mod 16
      else (7 * i) mod 16)"

fun md5_step :: "u32 list \<Rightarrow> nat \<Rightarrow> u32 \<times> u32 \<times> u32 \<times> u32 \<Rightarrow> u32 \<times> u32 \<times> u32 \<times> u32" where
  "md5_step m i (a, b, c, d) =
     (d, b + rotl32 (a + md5_F i b c d + md5_K ! i + m ! md5_g i) (md5_S ! i), b, c)"

fun md5_block :: "u32 \<times> u32 \<times> u32 \<times> u32 \<Rightarrow> u32 list \<Rightarrow> u32 \<times> u32 \<times> u32 \<times> u32" where
  "md5_block (a0, b0, c0, d0) m =
     (case fold (md5_step m) [0..<64] (a0, b0, c0, d0) of
        (a, b, c, d) \<Rightarrow> (a0 + a, b0 + b, c0 + c, d0 + d))"

text \<open>Little-endian bytes of a word, lowest byte first.\<close>

fun le_bytes :: "nat \<Rightarrow> 'a::len word \<Rightarrow> byte list" where
  "le_bytes 0 w = []"
| "le_bytes (Suc k) w = ucast w # le_bytes k (drop_bit 8 w)"

text \<open>
  Padding: one byte \<open>0x80\<close>, zero bytes up to 56 modulo 64, then the bit length of the
  message as a 64-bit little-endian number.
\<close>

definition md5_pad :: "byte list \<Rightarrow> byte list" where
  "md5_pad bs = bs @ [0x80] @ replicate ((119 - length bs mod 64) mod 64) 0
                 @ le_bytes 8 (8 * of_nat (length bs) :: 64 word)"

fun le_word :: "byte list \<Rightarrow> u32" where
  "le_word [] = 0"
| "le_word (b # bs) = of_nat (unat b) + 256 * le_word bs"

definition md5_words :: "byte list \<Rightarrow> u32 list" where
  "md5_words blk = map (\<lambda>j. le_word (take 4 (drop (4 * j) blk))) [0..<16]"

definition md5_blocks :: "byte list \<Rightarrow> u32 list list" where
  "md5_blocks bs = map (\<lambda>i. md5_words (take 64 (drop (64 * i) bs))) [0..<length bs div 64]"

definition md5 :: "byte list \<Rightarrow> byte list" where
  "md5 bs =
     (case fold (\<lambda>m st. md5_block st m) (md5_blocks (md5_pad bs))
             (0x67452301, 0xefcdab89, 0x98badcfe, 0x10325476) of
        (a, b, c, d) \<Rightarrow> concat (map (le_bytes 4) [a, b, c, d]))"

definition hexdigit :: "nat \<Rightarrow> char" where
  "hexdigit n = ''0123456789abcdef'' ! n"

definition hexdigest :: "byte list \<Rightarrow> string" where
  "hexdigest bs = concat (map (\<lambda>b. [hexdigit (unat (drop_bit 4 b)), hexdigit (unat (b AND 15))]) bs)"

section \<open>The topic key\<close>

text \<open>Python's \<open>sep.join(xs)\<close>.\<close>

fun join :: "string \<Rightarrow> string list \<Rightarrow> string" where
  "join sep [] = []"
| "join sep [x] = x"
| "join sep (x # y # ys) = x @ sep @ join sep (y # ys)"

text \<open>
  \<open>generate_topic_key(keywords)\<close>: the words of the (word, weight) pairs joined by an
  underscore, encoded, hashed with MD5 and printed in hexadecimal.
\<close>

definition generate_topic_key :: "(string \<times> 'w) list \<Rightarrow> string" where
  "generate_topic_key keywords =
     (let keywords_string = join ''_'' (map (\<lambda>(kw, _). kw) keywords)
      in hexdigest (md5 (encode keywords_string)))"

text \<open>
  The resolver as the specification words it: the words only, concatenated with a fixed
  separator between consecutive words.
\<close>

definition spec_concat_words :: "string \<Rightarrow> string list \<Rightarrow> string" where
  "spec_concat_words sep ws =
     (if ws = [] then [] else foldl (\<lambda>acc w. acc @ sep @ w) (hd ws) (tl ws))"

section \<open>The graph store\<close>

text \<open>
  The Neo4j store is a property graph. A node has a label and properties; a relationship
  has a type, a source node, a target node and properties. Nodes are never deleted by
  this program, so a node is identified by its position in the list of nodes. Property
  values are strings or numbers; the only numbers are the strengths of keywords, which
  the program stores as it gets them and never computes with, so their type is the
  parameter \<open>'w\<close>. The properties of a node or relationship are an association list
  with one entry for each property name.
\<close>

datatype 'w pval = Str string | Num 'w

record 'w node =
  label :: string
  props :: "(string \<times> 'w pval) list"

record 'w rel =
  src :: nat
  rtype :: string
  dst :: nat
  rprops :: "(string \<times> 'w pval) list"

record 'w graph =
  nodes :: "'w node list"
  rels :: "'w rel list"

definition empty_graph :: "'w graph" where
  "empty_graph = \<lparr>nodes = [], rels = []\<rparr>"

text \<open>The node pattern \<open>(:l {k: v})\<close>.\<close>

definition is_node :: "string \<Rightarrow> string \<Rightarrow> 'w pval \<Rightarrow> 'w node \<Rightarrow> bool" where
  "is_node l k v n \<longleftrightarrow> label n = l \<and> map_of (props n) k = Some v"

text \<open>\<open>MATCH (x:l {k: v})\<close>: the nodes that fit the pattern, possibly none.\<close>

definition match_nodes :: "string \<Rightarrow> string \<Rightarrow> 'w pval \<Rightarrow> 'w graph \<Rightarrow> nat list" where
  "match_nodes l k v g = filter (\<lambda>i. is_node l k v (nodes g ! i)) [0..<length (nodes g)]"

definition has_node :: "string \<Rightarrow> string \<Rightarrow> 'w pval \<Rightarrow> 'w graph \<Rightarrow> bool" where
  "has_node l k v g \<longleftrightarrow> match_nodes l k v g \<noteq> []"

text \<open>
  \<open>MERGE (x:l {k: v})\<close>: when no node fits the pattern, one is created with exactly this
  label and property; afterwards \<open>x\<close> ranges over \<open>match_nodes l k v\<close>.
\<close>

definition merge_node :: "string \<Rightarrow> string \<Rightarrow> 'w pval \<Rightarrow> 'w graph \<Rightarrow> 'w graph" where
  "merge_node l k v g =
     (if has_node l k v g then g
      else g\<lparr>nodes := nodes g @ [\<lparr>label = l, props = [(k, v)]\<rparr>]\<rparr>)"

text \<open>
  \<open>SET x.p = a\<close> for every node \<open>x\<close> bound by the pattern \<open>(x:l {k: v})\<close>: each
  node that fits the pattern gets the property, the others are left alone.
\<close>

definition assign_node ::
  "string \<Rightarrow> string \<Rightarrow> 'w pval \<Rightarrow> string \<Rightarrow> 'w pval \<Rightarrow> 'w node \<Rightarrow> 'w node" where
  "assign_node l k v p a n =
     (if is_node l k v n then n\<lparr>props := AList.update p a (props n)\<rparr> else n)"

definition set_node_prop ::
  "string \<Rightarrow> string \<Rightarrow> 'w pval \<Rightarrow> string \<Rightarrow> 'w pval \<Rightarrow> 'w graph \<Rightarrow> 'w graph" where
  "set_node_prop l k v p a g = g\<lparr>nodes := map (assign_node l k v p a) (nodes g)\<rparr>"

text \<open>The relationships of type \<open>t\<close> from node \<open>s\<close> to node \<open>d\<close>.\<close>

definition match_rels :: "string \<Rightarrow> nat \<Rightarrow> nat \<Rightarrow> 'w graph \<Rightarrow> 'w rel list" where
  "match_rels t s d g = filter (\<lambda>e. rtype e = t \<and> src e = s \<and> dst e = d) (rels g)"

text \<open>
  \<open>MERGE (s)-[:t]->(d)\<close> for bound nodes \<open>s\<close> and \<open>d\<close>: a relationship without
  properties is created when there is none of this type between them.
\<close>

definition merge_rel :: "string \<Rightarrow> nat \<times> nat \<Rightarrow> 'w graph \<Rightarrow> 'w graph" where
  "merge_rel t sd g =
     (if match_rels t (fst sd) (snd sd) g \<noteq> [] then g
      else g\<lparr>rels := rels g @ [\<lparr>src = fst sd, rtype = t, dst = snd sd, rprops = []\<rparr>]\<rparr>)"

text \<open>
  \<open>SET r.p = a\<close> for every relationship \<open>r\<close> of type \<open>t\<close> from a node of \<open>ss\<close> to a
  node of \<open>ds\<close>.
\<close>

definition assign_rel ::
  "string \<Rightarrow> nat list \<Rightarrow> nat list \<Rightarrow> string \<Rightarrow> 'w pval \<Rightarrow> 'w rel \<Rightarrow> 'w rel" where
  "assign_rel t ss ds p a e =
     (if rtype e = t \<and> src e \<in> set ss \<and> dst e \<in> set ds
      then e\<lparr>rprops := AList.update p a (rprops e)\<rparr> else e)"

definition set_rel_prop ::
  "string \<Rightarrow> nat list \<Rightarrow> nat list \<Rightarrow> string \<Rightarrow> 'w pval \<Rightarrow> 'w graph \<Rightarrow> 'w graph" where
  "set_rel_prop t ss ds p a g = g\<lparr>rels := map (assign_rel t ss ds p a) (rels g)\<rparr>"

section \<open>The three write statements\<close>

text \<open>
  The records of the topic batch and of the document batch (Python dicts). The dict key
  \<open>keywords\<close> of a topic record is the field \<open>keywords_of\<close>. A statement with
  \<open>UNWIND\<close> handles the records of its batch one after the other, in the order of the
  list.
\<close>

record topic_rec =
  key :: string
  keywords_of :: string

record doc_rec =
  content :: string
  topic_key :: string

text \<open>
  One row of
  \<^verbatim>\<open>UNWIND $topics AS topic MERGE (t:Topic {key: topic.key}) SET t.keywords = topic.keywords\<close>.
\<close>

definition topic_row :: "topic_rec \<Rightarrow> 'w graph \<Rightarrow> 'w graph" where
  "topic_row topic g =
     set_node_prop ''Topic'' ''key'' (Str (key topic)) ''keywords'' (Str (keywords_of topic))
       (merge_node ''Topic'' ''key'' (Str (key topic)) g)"

text \<open>
  One row of
  \<^verbatim>\<open>UNWIND $docs AS doc MERGE (d:Document {content: doc.content}) WITH d, doc
  MATCH (t:Topic {key: doc.topic_key}) MERGE (d)-[:BELONGS_TO]->(t)\<close>.
  When no topic matches there is no row left for the last \<open>MERGE\<close>.
\<close>

definition doc_row :: "doc_rec \<Rightarrow> 'w graph \<Rightarrow> 'w graph" where
  "doc_row doc g =
     (let g1 = merge_node ''Document'' ''content'' (Str (content doc)) g;
          ds = match_nodes ''Document'' ''content'' (Str (content doc)) g1;
          ts = match_nodes ''Topic'' ''key'' (Str (topic_key doc)) g1
      in fold (merge_rel ''BELONGS_TO'') (List.product ds ts) g1)"

text \<open>
  The statement of the keyword loop:
  \<^verbatim>\<open>MERGE (k:Keyword {word: $keyword}) WITH k MATCH (t:Topic {key: $topic_key})
  MERGE (k)-[r:REPRESENTS]->(t) SET r.strength = $strength\<close>.
\<close>

definition keyword_row :: "string \<Rightarrow> string \<Rightarrow> 'w \<Rightarrow> 'w graph \<Rightarrow> 'w graph" where
  "keyword_row keyword tkey strength g =
     (let g1 = merge_node ''Keyword'' ''word'' (Str keyword) g;
          ks = match_nodes ''Keyword'' ''word'' (Str keyword) g1;
          ts = match_nodes ''Topic'' ''key'' (Str tkey) g1;
          g2 = fold (merge_rel ''REPRESENTS'') (List.product ks ts) g1
      in set_rel_prop ''REPRESENTS'' ks ts ''strength'' (Num strength) g2)"

text \<open>A call of \<open>session.run\<close>: the statement with its parameters.\<close>

datatype 'w stmt =
  TopicUpsert "topic_rec list"
| DocumentUpsert "doc_rec list"
| KeywordUpsert string string 'w

fun exec :: "'w stmt \<Rightarrow> 'w graph \<Rightarrow> 'w graph" where
  "exec (TopicUpsert topics) g = fold topic_row topics g"
| "exec (DocumentUpsert docs) g = fold doc_row docs g"
| "exec (KeywordUpsert keyword tkey strength) g = keyword_row keyword tkey strength g"

text \<open>
  The session: the store it writes to and the statements it has run so far, oldest
  first.
\<close>

record 'w session =
  store :: "'w graph"
  trace :: "'w stmt list"

definition run :: "'w stmt \<Rightarrow> 'w session \<Rightarrow> 'w session" where
  "run q s = \<lparr>store = exec q (store s), trace = trace s @ [q]\<rparr>"

section \<open>The planner and the writer: \<open>create_topic_graph\<close>\<close>

text \<open>
  \<open>topic_model.get_topic\<close> is the function \<open>get_topic\<close> from topic ids to (word, weight)
  lists. \<open>topic_ids = set(topics)\<close> is iterated twice; Python fixes no order for a set,
  so the order is the parameter \<open>topic_ids\<close>, a list that holds each element of
  \<open>topics\<close> once.
\<close>

definition set_iteration :: "int list \<Rightarrow> int list \<Rightarrow> bool" where
  "set_iteration topic_ids topics \<longleftrightarrow> distinct topic_ids \<and> set topic_ids = set topics"

definition topic_queries :: "(int \<Rightarrow> (string \<times> 'w) list) \<Rightarrow> int list \<Rightarrow> topic_rec list" where
  "topic_queries get_topic topic_ids =
     map (\<lambda>topic_id.
            \<lparr>key = generate_topic_key (get_topic topic_id),
             keywords_of = join '', '' (map (\<lambda>(word, proba). word) (get_topic topic_id))\<rparr>)
         topic_ids"

definition doc_queries ::
  "(int \<Rightarrow> (string \<times> 'w) list) \<Rightarrow> string list \<Rightarrow> int list \<Rightarrow> doc_rec list" where
  "doc_queries get_topic docs topics =
     map (\<lambda>(doc, topic). \<lparr>content = doc, topic_key = generate_topic_key (get_topic topic)\<rparr>)
         (zip docs topics)"

definition write_keywords ::
  "(int \<Rightarrow> (string \<times> 'w) list) \<Rightarrow> int list \<Rightarrow> 'w session \<Rightarrow> 'w session" where
  "write_keywords get_topic topic_ids s =
     fold (\<lambda>topic_id s.
             let tkey = generate_topic_key (get_topic topic_id);
                 kws = get_topic topic_id
             in fold (\<lambda>(keyword, strength) s. run (KeywordUpsert keyword tkey strength) s) kws s)
          topic_ids s"

definition create_topic_graph ::
  "(int \<Rightarrow> (string \<times> 'w) list) \<Rightarrow> int list \<Rightarrow> string list \<Rightarrow> int list
     \<Rightarrow> 'w session \<Rightarrow> 'w session" where
  "create_topic_graph get_topic topic_ids docs topics s =
     (let s1 = run (TopicUpsert (topic_queries get_topic topic_ids)) s;
          s2 = run (DocumentUpsert (doc_queries get_topic docs topics)) s1
      in write_keywords get_topic topic_ids s2)"

text \<open>The keyword statements of one run, in the order of the nested iteration over topic ids and keywords.\<close>

fun is_keyword_upsert :: "'w stmt \<Rightarrow> bool" where
  "is_keyword_upsert (KeywordUpsert keyword tkey strength) = True"
| "is_keyword_upsert _ = False"

definition keyword_queries :: "(int \<Rightarrow> (string \<times> 'w) list) \<Rightarrow> int list \<Rightarrow> 'w stmt list" where
  "keyword_queries get_topic topic_ids =
     concat (map (\<lambda>topic_id.
                    map (\<lambda>(keyword, strength).
                           KeywordUpsert keyword (generate_topic_key (get_topic topic_id)) strength)
                        (get_topic topic_id))
                 topic_ids)"

section \<open>Store invariants and the rows of a run\<close>

text \<open>Every relationship of a well-formed store links two existing nodes.\<close>

definition wf_graph :: "'w graph \<Rightarrow> bool" where
  "wf_graph g \<longleftrightarrow>
     list_all (\<lambda>e. src e < length (nodes g) \<and> dst e < length (nodes g)) (rels g)"

text \<open>
  No duplicates: at most one Topic node for a key, one Document node for a content and
  one Keyword node for a word; at most one relationship of a type between two nodes.
\<close>

definition no_duplicate_nodes :: "'w graph \<Rightarrow> bool" where
  "no_duplicate_nodes g \<longleftrightarrow>
     (\<forall>v. length (match_nodes ''Topic'' ''key'' v g) \<le> 1)
     \<and> (\<forall>v. length (match_nodes ''Document'' ''content'' v g) \<le> 1)
     \<and> (\<forall>v. length (match_nodes ''Keyword'' ''word'' v g) \<le> 1)"

definition no_duplicate_rels :: "'w graph \<Rightarrow> bool" where
  "no_duplicate_rels g \<longleftrightarrow> distinct (map (\<lambda>e. (rtype e, src e, dst e)) (rels g))"

text \<open>The \<open>REPRESENTS\<close> relationships from a Keyword node of a word to a Topic node of a key.\<close>

definition represents_edges :: "string \<Rightarrow> string \<Rightarrow> 'w graph \<Rightarrow> 'w rel list" where
  "represents_edges word tkey g =
     filter (\<lambda>e. rtype e = ''REPRESENTS''
                  \<and> src e \<in> set (match_nodes ''Keyword'' ''word'' (Str word) g)
                  \<and> dst e \<in> set (match_nodes ''Topic'' ''key'' (Str tkey) g))
            (rels g)"

text \<open>
  A row is one record of a batch, or one keyword statement. Its effect splits into a
  part that creates what is missing and a part that sets a property.
\<close>

datatype 'w row = TopicRow topic_rec | DocRow doc_rec | KeywordRow string string 'w

fun row_exec :: "'w row \<Rightarrow> 'w graph \<Rightarrow> 'w graph" where
  "row_exec (TopicRow t) g = topic_row t g"
| "row_exec (DocRow d) g = doc_row d g"
| "row_exec (KeywordRow w k x) g = keyword_row w k x g"

fun stmt_rows :: "'w stmt \<Rightarrow> 'w row list" where
  "stmt_rows (TopicUpsert ts) = map TopicRow ts"
| "stmt_rows (DocumentUpsert ds) = map DocRow ds"
| "stmt_rows (KeywordUpsert w k x) = [KeywordRow w k x]"

text \<open>
  \<open>MERGE\<close> a node \<open>(:l {kp: v})\<close>, \<open>MATCH\<close> the topics of a key and \<open>MERGE\<close> a relationship
  of type \<open>t\<close> from each such node to each such topic.
\<close>

definition merge_link ::
  "string \<Rightarrow> string \<Rightarrow> 'w pval \<Rightarrow> string \<Rightarrow> string \<Rightarrow> 'w graph \<Rightarrow> 'w graph" where
  "merge_link l kp v t tkey g =
     (let g1 = merge_node l kp v g
      in fold (merge_rel t)
           (List.product (match_nodes l kp v g1) (match_nodes ''Topic'' ''key'' (Str tkey) g1)) g1)"

fun row_create :: "'w row \<Rightarrow> 'w graph \<Rightarrow> 'w graph" where
  "row_create (TopicRow t) g = merge_node ''Topic'' ''key'' (Str (key t)) g"
| "row_create (DocRow d) g =
     merge_link ''Document'' ''content'' (Str (content d)) ''BELONGS_TO'' (topic_key d) g"
| "row_create (KeywordRow w k x) g = merge_link ''Keyword'' ''word'' (Str w) ''REPRESENTS'' k g"

fun row_set :: "'w row \<Rightarrow> 'w graph \<Rightarrow> 'w graph" where
  "row_set (TopicRow t) g =
     set_node_prop ''Topic'' ''key'' (Str (key t)) ''keywords'' (Str (keywords_of t)) g"
| "row_set (DocRow d) g = g"
| "row_set (KeywordRow w k x) g =
     set_rel_prop ''REPRESENTS'' (match_nodes ''Keyword'' ''word'' (Str w) g)
       (match_nodes ''Topic'' ''key'' (Str k) g) ''strength'' (Num x) g"

text \<open>What a row's property assignment writes to: the topics of a key, or the
  relationships between the keywords of a word and the topics of a key.\<close>

datatype target = TopicTarget string | NoTarget | EdgeTarget string string

fun row_target :: "'w row \<Rightarrow> target" where
  "row_target (TopicRow t) = TopicTarget (key t)"
| "row_target (DocRow d) = NoTarget"
| "row_target (KeywordRow w k x) = EdgeTarget w k"

fun is_topic_row :: "'w row \<Rightarrow> bool" where
  "is_topic_row (TopicRow t) = True"
| "is_topic_row _ = False"

text \<open>The nodes and relationships a row merges are all there.\<close>

definition linked ::
  "string \<Rightarrow> string \<Rightarrow> 'w pval \<Rightarrow> string \<Rightarrow> string \<Rightarrow> 'w graph \<Rightarrow> bool" where
  "linked l kp v t tkey g \<longleftrightarrow>
     has_node l kp v g
     \<and> list_all (\<lambda>sd. match_rels t (fst sd) (snd sd) g \<noteq> [])
          (List.product (match_nodes l kp v g) (match_nodes ''Topic'' ''key'' (Str tkey) g))"

fun row_done :: "'w row \<Rightarrow> 'w graph \<Rightarrow> bool" where
  "row_done (TopicRow t) g = has_node ''Topic'' ''key'' (Str (key t)) g"
| "row_done (DocRow d) g =
     linked ''Document'' ''content'' (Str (content d)) ''BELONGS_TO'' (topic_key d) g"
| "row_done (KeywordRow w k x) g = linked ''Keyword'' ''word'' (Str w) ''REPRESENTS'' k g"

text \<open>The rows of one run.\<close>

definition run_rows ::
  "(int \<Rightarrow> (string \<times> 'w) list) \<Rightarrow> int list \<Rightarrow> string list \<Rightarrow> int list \<Rightarrow> 'w row list" where
  "run_rows get_topic ids docs topics =
     concat (map stmt_rows
       (TopicUpsert (topic_queries get_topic ids)
        # DocumentUpsert (doc_queries get_topic docs topics)
        # keyword_queries get_topic ids))"

text \<open>In a run the rows of the topic batch come before all other rows.\<close>

fun topics_first :: "'w row list \<Rightarrow> bool" where
  "topics_first [] = True"
| "topics_first (r # rs) =
     (if is_topic_row r then topics_first rs else list_all (\<lambda>r'. \<not> is_topic_row r') rs)"

section \<open>Properties of the digest and of the topic key\<close>

lemma md5_digest_empty: "hexdigest (md5 (encode '''')) = ''d41d8cd98f00b204e9800998ecf8427e''"
  by code_simp

lemma md5_digest_chat_chien:
  "hexdigest (md5 (encode ''chat_chien'')) = ''1541bb6ac71a71c3d4e39e6071a1f98f''"
  by code_simp

lemma md5_digest_a_b: "hexdigest (md5 (encode ''a_b'')) = ''dbf08e00b01fd58a4a5967753b43784f''"
  by code_simp

lemma md5_digest_b_a: "hexdigest (md5 (encode ''b_a'')) = ''913be2f59174b62430e2b97b0874ec74''"
  by code_simp

text \<open>
  Two words with code points above 127 (U+00E9 and U+00E2), each encoded in two bytes.
\<close>

lemma md5_digest_accents:
  "hexdigest (md5 (encode ([CHR 0xE9, CHR ''t'', CHR 0xE9] @ ''_'' @ [CHR ''c'', CHR ''h'', CHR 0xE2] @ ''teau''))) =
     ''513798c0fee33d2e08ef71b17326121a''"
  by code_simp

lemma le_bytes_length: "length (le_bytes k w) = k"
  by (induction k arbitrary: w) auto

lemma md5_length: "length (md5 bs) = 16"
  by (simp add: md5_def le_bytes_length split: prod.splits)

lemma hexdigest_length: "length (hexdigest bs) = 2 * length bs"
  by (induction bs) (auto simp: hexdigest_def)

lemma hexdigit_lower: "n < 16 \<Longrightarrow> hexdigit n \<in> set ''0123456789abcdef''"
  unfolding hexdigit_def by (rule nth_mem) simp

lemma high_nibble_bound: "unat (drop_bit 4 b) < 16" for b :: byte
proof -
  have "unat b < 256" using unsigned_less [of b, where 'a = nat] by simp
  then have "unat b div 16 < 16" by simp
  then show ?thesis by (simp add: drop_bit_eq_div unat_div)
qed

lemma low_nibble_bound: "unat (b AND 15) < 16" for b :: byte
proof -
  have "unat (b AND 15) \<le> unat (15 :: byte)"
    by (rule word_and_le1 [THEN word_le_nat_alt [THEN iffD1]])
  then show ?thesis by simp
qed

lemma hexdigest_chars: "set (hexdigest bs) \<subseteq> set ''0123456789abcdef''"
proof (induction bs)
  case Nil
  show ?case by (simp add: hexdigest_def)
next
  case (Cons b bs)
  have "hexdigest (b # bs) =
      [hexdigit (unat (drop_bit 4 b)), hexdigit (unat (b AND 15))] @ hexdigest bs"
    by (simp add: hexdigest_def)
  with Cons hexdigit_lower [OF high_nibble_bound [of b]] hexdigit_lower [OF low_nibble_bound [of b]]
  show ?case by auto
qed

lemma join_snoc: "ws \<noteq> [] \<Longrightarrow> join sep (ws @ [w]) = join sep ws @ sep @ w"
  by (induction sep ws rule: join.induct) auto

lemma foldl_join: "foldl (\<lambda>acc w. acc @ sep @ w) x ws = join sep (x # ws)"
  by (induction ws rule: rev_induct) (auto simp: join_snoc simp flip: append_Cons)

lemma join_spec: "join sep ws = spec_concat_words sep ws"
  by (cases ws) (auto simp: spec_concat_words_def foldl_join)

lemma key_words: "map (\<lambda>(kw, _). kw) kws = map fst kws"
  by (induction kws) auto

lemma generate_topic_key_join:
  "generate_topic_key kws = hexdigest (md5 (encode (join ''_'' (map fst kws))))"
  by (simp add: generate_topic_key_def key_words)

text \<open>
  C4. For every keyword sequence the key is the lowercase hexadecimal MD5 digest (32
  digits) of the UTF-8 encoding of the words joined by an underscore; the weights play no
  part. For the sequence (chat, w1), (chien, w2) it is the digest of \<open>chat_chien\<close>,
  and words with accents are hashed in their UTF-8 encoding.
\<close>

theorem generate_topic_key_digest:
  "generate_topic_key kws =
     hexdigest (md5 (encode (spec_concat_words ''_'' (map fst kws))))
   \<and> length (generate_topic_key kws) = 32
   \<and> set (generate_topic_key kws) \<subseteq> set ''0123456789abcdef''
   \<and> generate_topic_key [(''chat'', w1), (''chien'', w2)] = hexdigest (md5 (encode ''chat_chien''))
   \<and> generate_topic_key [(''chat'', w1), (''chien'', w2)] = ''1541bb6ac71a71c3d4e39e6071a1f98f''
   \<and> generate_topic_key [([CHR 0xE9, CHR ''t'', CHR 0xE9], w1), ([CHR ''c'', CHR ''h'', CHR 0xE2] @ ''teau'', w2)] =
       ''513798c0fee33d2e08ef71b17326121a''"
proof -
  note key = generate_topic_key_join
  have a: "generate_topic_key kws =
      hexdigest (md5 (encode (spec_concat_words ''_'' (map fst kws))))"
    by (simp only: key join_spec)
  have b: "length (generate_topic_key kws) = 32"
    by (simp add: key hexdigest_length md5_length)
  have c: "set (generate_topic_key kws) \<subseteq> set ''0123456789abcdef''"
    unfolding key by (rule hexdigest_chars)
  have d: "generate_topic_key [(''chat'', w1), (''chien'', w2)] =
      hexdigest (md5 (encode ''chat_chien''))"
    by (simp add: key)
  have e: "generate_topic_key [(''chat'', w1), (''chien'', w2)] =
      ''1541bb6ac71a71c3d4e39e6071a1f98f''"
    by (simp only: d md5_digest_chat_chien)
  have f: "generate_topic_key
      [([CHR 0xE9, CHR ''t'', CHR 0xE9], w1), ([CHR ''c'', CHR ''h'', CHR 0xE2] @ ''teau'', w2)] =
      ''513798c0fee33d2e08ef71b17326121a''"
    using md5_digest_accents by (simp add: key)
  from a b c d e f show ?thesis by blast
qed

text \<open>
  C8. The key depends on the order of the words: the sequences (a, w1), (b, w2) and
  (b, w3), (a, w4) hold the same words and have different keys.
\<close>

theorem generate_topic_key_order_sensitive:
  "set (map fst [(''a'', w1), (''b'', w2)]) = set (map fst [(''b'', w3), (''a'', w4)])
   \<and> generate_topic_key [(''a'', w1), (''b'', w2)] \<noteq> generate_topic_key [(''b'', w3), (''a'', w4)]"
proof -
  have "generate_topic_key [(''a'', w1), (''b'', w2)] = hexdigest (md5 (encode ''a_b''))"
    by (simp add: generate_topic_key_def)
  moreover have "generate_topic_key [(''b'', w3), (''a'', w4)] = hexdigest (md5 (encode ''b_a''))"
    by (simp add: generate_topic_key_def)
  ultimately show ?thesis
    using md5_digest_a_b md5_digest_b_a by auto
qed

text \<open>
  C9. The empty keyword sequence is not treated separately: its key is the MD5 digest of
  the empty string, the constant d41d8cd98f00b204e9800998ecf8427e.
\<close>

theorem generate_topic_key_empty:
  "generate_topic_key [] = hexdigest (md5 (encode ''''))
   \<and> generate_topic_key [] = ''d41d8cd98f00b204e9800998ecf8427e''"
  using md5_digest_empty by (simp add: generate_topic_key_def)

section \<open>The statements of one run\<close>

lemma trace_run: "trace (run q s) = trace s @ [q]"
  by (simp add: run_def)

lemma store_run: "store (run q s) = exec q (store s)"
  by (simp add: run_def)

lemma fold_run: "fold run qs s = \<lparr>store = fold exec qs (store s), trace = trace s @ qs\<rparr>"
  by (induction qs arbitrary: s) (simp_all add: run_def)

lemma write_keywords_fold: "write_keywords get_topic ids s = fold run (keyword_queries get_topic ids) s"
proof -
  have inner: "fold (\<lambda>(keyword, strength) s. run (KeywordUpsert keyword k strength) s) kws s =
      fold run (map (\<lambda>(keyword, strength). KeywordUpsert keyword k strength) kws) s"
    for k and kws :: "(string \<times> 'a) list" and s
    by (induction kws arbitrary: s) (auto split: prod.splits)
  show ?thesis
    unfolding write_keywords_def keyword_queries_def
    by (induction ids arbitrary: s) (simp_all add: inner Let_def)
qed

lemma create_topic_graph_fold:
  "create_topic_graph get_topic ids docs topics s =
     fold run (TopicUpsert (topic_queries get_topic ids)
               # DocumentUpsert (doc_queries get_topic docs topics)
               # keyword_queries get_topic ids) s"
  by (simp add: create_topic_graph_def write_keywords_fold Let_def)

lemma keyword_queries_kind: "list_all is_keyword_upsert (keyword_queries get_topic ids)"
  by (auto simp: keyword_queries_def list_all_iff)

text \<open>
  C6. One run executes its statements in a fixed order: the topic batch first, the
  document batch second, and after them the keyword statements and nothing else. No
  batch is left out, and the store is the result of executing them in this order.
\<close>

theorem create_topic_graph_order:
  "trace (create_topic_graph get_topic ids docs topics s) =
     trace s @ [TopicUpsert (topic_queries get_topic ids),
                DocumentUpsert (doc_queries get_topic docs topics)]
             @ keyword_queries get_topic ids
   \<and> list_all is_keyword_upsert (keyword_queries get_topic ids)
   \<and> store (create_topic_graph get_topic ids docs topics s) =
       fold exec (keyword_queries get_topic ids)
         (exec (DocumentUpsert (doc_queries get_topic docs topics))
           (exec (TopicUpsert (topic_queries get_topic ids)) (store s)))"
  by (simp add: create_topic_graph_fold fold_run keyword_queries_kind trace_run store_run)

text \<open>
  C2, as the code has it. The two sequences are never compared: whatever their lengths,
  the run executes the topic batch, built from the topic ids of all assignments, and the
  document batch, which pairs documents and assignments by position up to the shorter
  of the two and drops the rest.
\<close>

theorem mismatched_lengths_not_rejected:
  "trace (create_topic_graph get_topic ids docs topics s) \<noteq> trace s
   \<and> take 2 (drop (length (trace s)) (trace (create_topic_graph get_topic ids docs topics s))) =
       [TopicUpsert (topic_queries get_topic ids),
        DocumentUpsert (doc_queries get_topic docs topics)]
   \<and> length (doc_queries get_topic docs topics) = min (length docs) (length topics)
   \<and> doc_queries get_topic docs topics =
       doc_queries get_topic (take (length topics) docs) (take (length docs) topics)"
proof -
  have "zip docs topics = zip (take (length topics) docs) (take (length docs) topics)"
    by (induction docs topics rule: list_induct2') auto
  then show ?thesis
    by (simp add: create_topic_graph_fold fold_run doc_queries_def trace_run store_run)
qed

text \<open>
  The claim C2 fails for two documents and one assignment: the run is not rejected, it
  executes the topic batch and a document batch that holds the first document only.
\<close>

theorem mismatched_lengths_counterexample:
  "length [''a'', ''b''] \<noteq> length [0 :: int]
   \<and> set_iteration [0] [0]
   \<and> trace (create_topic_graph (\<lambda>_. [] :: (string \<times> real) list) [0] [''a'', ''b''] [0]
        \<lparr>store = empty_graph, trace = []\<rparr>) =
     [TopicUpsert [\<lparr>key = generate_topic_key ([] :: (string \<times> real) list), keywords_of = ''''\<rparr>],
      DocumentUpsert [\<lparr>content = ''a'', topic_key = generate_topic_key ([] :: (string \<times> real) list)\<rparr>]]"
  by (simp add: create_topic_graph_fold fold_run doc_queries_def topic_queries_def
      keyword_queries_def trace_run store_run set_iteration_def)

text \<open>
  C10. In one run every topic key of a document record and of a keyword statement is
  the key of a topic id of the assignments, and the topic batch holds a record with
  that key.
\<close>

theorem planner_keys_in_topic_batch:
  assumes "set_iteration ids topics"
  shows "(\<forall>d \<in> set (doc_queries get_topic docs topics).
            \<exists>tid \<in> set topics. topic_key d = generate_topic_key (get_topic tid)
              \<and> (\<exists>t \<in> set (topic_queries get_topic ids). key t = topic_key d))
       \<and> (\<forall>keyword tkey strength.
            KeywordUpsert keyword tkey strength \<in> set (keyword_queries get_topic ids) \<longrightarrow>
            (\<exists>tid \<in> set topics. tkey = generate_topic_key (get_topic tid)
              \<and> (\<exists>t \<in> set (topic_queries get_topic ids). key t = tkey)))"
proof -
  from assms have ids: "set ids = set topics"
    by (simp add: set_iteration_def)
  have batch: "\<exists>t \<in> set (topic_queries get_topic ids). key t = generate_topic_key (get_topic tid)"
    if "tid \<in> set topics" for tid
    using that ids by (force simp: topic_queries_def)
  have docs: "\<exists>tid \<in> set topics. topic_key d = generate_topic_key (get_topic tid)"
    if "d \<in> set (doc_queries get_topic docs topics)" for d
    using that by (auto simp: doc_queries_def dest: set_zip_rightD)
  have kws: "\<exists>tid \<in> set topics. tkey = generate_topic_key (get_topic tid)"
    if "KeywordUpsert keyword tkey strength \<in> set (keyword_queries get_topic ids)"
    for keyword tkey strength
    using that ids by (auto simp: keyword_queries_def)
  show ?thesis
    using batch docs kws by metis
qed

theorem planner_keys_in_topic_batch_witness:
  "set_iteration [0] [0, 0]
   \<and> (\<exists>t \<in> set (topic_queries (\<lambda>_. [(''chat'', 9 / 10 :: real)]) [0]).
         key t = topic_key (doc_queries (\<lambda>_. [(''chat'', 9 / 10 :: real)]) [''x'', ''y''] [0, 0] ! 1))
   \<and> KeywordUpsert ''chat'' (generate_topic_key [(''chat'', 9 / 10 :: real)]) (9 / 10)
         \<in> set (keyword_queries (\<lambda>_. [(''chat'', 9 / 10 :: real)]) [0])
   \<and> (\<exists>t \<in> set (topic_queries (\<lambda>_. [(''chat'', 9 / 10 :: real)]) [0]).
         key t = generate_topic_key [(''chat'', 9 / 10 :: real)])"
proof -
  have h: "set_iteration [0] [0, 0]"
    by (simp add: set_iteration_def)
  have d: "doc_queries (\<lambda>_. [(''chat'', 9 / 10 :: real)]) [''x'', ''y''] [0, 0] ! 1
      \<in> set (doc_queries (\<lambda>_. [(''chat'', 9 / 10 :: real)]) [''x'', ''y''] [0, 0])"
    by (simp add: doc_queries_def)
  have k: "KeywordUpsert ''chat'' (generate_topic_key [(''chat'', 9 / 10 :: real)]) (9 / 10)
      \<in> set (keyword_queries (\<lambda>_. [(''chat'', 9 / 10 :: real)]) [0])"
    by (simp add: keyword_queries_def)
  show ?thesis
    using h d k
      planner_keys_in_topic_batch [OF h, of "\<lambda>_. [(''chat'', 9 / 10 :: real)]" "[''x'', ''y'']"]
    by blast
qed

section \<open>Basic facts about the store operations\<close>

lemma mem_match_nodes:
  "i \<in> set (match_nodes l k v g) \<longleftrightarrow> i < length (nodes g) \<and> is_node l k v (nodes g ! i)"
  by (auto simp: match_nodes_def)

lemma has_node_iff: "has_node l k v g \<longleftrightarrow> (\<exists>n \<in> set (nodes g). is_node l k v n)"
  by (fastforce simp: has_node_def match_nodes_def filter_empty_conv in_set_conv_nth)

lemma match_nodes_cong: "nodes g = nodes g' \<Longrightarrow> match_nodes l k v g = match_nodes l k v g'"
  by (simp add: match_nodes_def)

lemma has_node_cong: "nodes g = nodes g' \<Longrightarrow> has_node l k v g = has_node l k v g'"
  by (simp add: has_node_def match_nodes_def)

lemma is_node_fresh [simp]:
  "is_node l' k' v' \<lparr>label = l, props = [(k, v)]\<rparr> \<longleftrightarrow> l' = l \<and> k' = k \<and> v' = v"
  by (auto simp: is_node_def)

lemma rels_merge_node [simp]: "rels (merge_node l k v g) = rels g"
  by (simp add: merge_node_def)

lemma nodes_merge_rel [simp]: "nodes (merge_rel t sd g) = nodes g"
  by (simp add: merge_rel_def)

lemma nodes_fold_merge_rel [simp]: "nodes (fold (merge_rel t) ps g) = nodes g"
  by (induction ps arbitrary: g) simp_all

lemma nodes_set_rel_prop [simp]: "nodes (set_rel_prop t ss ds p a g) = nodes g"
  by (simp add: set_rel_prop_def)

lemma rels_set_node_prop [simp]: "rels (set_node_prop l k v p a g) = rels g"
  by (simp add: set_node_prop_def)

lemma has_node_merge_node:
  "has_node l' k' v' (merge_node l k v g) \<longleftrightarrow>
     has_node l' k' v' g \<or> (l' = l \<and> k' = k \<and> v' = v)"
  by (auto simp: merge_node_def has_node_iff)

lemma product_Nil_right [simp]: "List.product xs [] = []"
  by (induction xs) simp_all

lemma nodes_doc_row:
  "nodes (doc_row d g) = nodes (merge_node ''Document'' ''content'' (Str (content d)) g)"
  by (simp add: doc_row_def Let_def)

lemma has_node_doc_row:
  "has_node l k v (doc_row d g) \<longleftrightarrow>
     has_node l k v g \<or> (l = ''Document'' \<and> k = ''content'' \<and> v = Str (content d))"
  using has_node_cong [OF nodes_doc_row] by (simp add: has_node_merge_node)

lemma has_node_fold_doc_row:
  "has_node l k v (fold doc_row ds g) \<longleftrightarrow>
     has_node l k v g \<or> (l = ''Document'' \<and> k = ''content'' \<and> v \<in> (\<lambda>d. Str (content d)) ` set ds)"
  by (induction ds arbitrary: g) (auto simp: has_node_doc_row)

lemma doc_row_no_topic:
  assumes "\<not> has_node ''Topic'' ''key'' (Str (topic_key d)) g"
  shows "rels (doc_row d g) = rels g"
proof -
  let ?g1 = "merge_node ''Document'' ''content'' (Str (content d)) g"
  from assms have "\<not> has_node ''Topic'' ''key'' (Str (topic_key d)) ?g1"
    by (simp add: has_node_merge_node)
  then have "match_nodes ''Topic'' ''key'' (Str (topic_key d)) ?g1 = []"
    by (simp add: has_node_def)
  then show ?thesis
    by (simp add: doc_row_def Let_def)
qed

section \<open>The document batch without its topic\<close>

text \<open>
  C1, as the code has it. A document record whose topic key has no Topic node does not
  make the write fail: the statement completes, the Document node is merged, no Topic
  node appears, and when no record of the batch finds its topic the relationships are
  left as they were.
\<close>

theorem document_write_without_topic:
  "(d \<in> set docs \<and> \<not> has_node ''Topic'' ''key'' (Str (topic_key d)) g \<longrightarrow>
      has_node ''Document'' ''content'' (Str (content d)) (exec (DocumentUpsert docs) g)
      \<and> \<not> has_node ''Topic'' ''key'' (Str (topic_key d)) (exec (DocumentUpsert docs) g))
   \<and> ((\<forall>d \<in> set docs. \<not> has_node ''Topic'' ''key'' (Str (topic_key d)) g) \<longrightarrow>
      rels (exec (DocumentUpsert docs) g) = rels g)
   \<and> trace (run (DocumentUpsert docs) s) = trace s @ [DocumentUpsert docs]"
proof -
  have "rels (fold doc_row docs g) = rels g"
    if "\<forall>d \<in> set docs. \<not> has_node ''Topic'' ''key'' (Str (topic_key d)) g"
    using that
  proof (induction docs arbitrary: g)
    case Nil
    show ?case by simp
  next
    case (Cons d docs)
    have "\<forall>x \<in> set docs. \<not> has_node ''Topic'' ''key'' (Str (topic_key x)) (doc_row d g)"
      using Cons.prems by (simp add: has_node_doc_row)
    from Cons.IH [OF this] Cons.prems show ?case
      by (simp add: doc_row_no_topic)
  qed
  then show ?thesis
    by (auto simp: has_node_fold_doc_row trace_run)
qed

theorem document_write_without_topic_witness:
  "\<lparr>content = ''d'', topic_key = ''k''\<rparr> \<in> set [\<lparr>content = ''d'', topic_key = ''k''\<rparr>]
   \<and> \<not> has_node ''Topic'' ''key'' (Str ''k'') (empty_graph :: real graph)
   \<and> has_node ''Document'' ''content'' (Str ''d'')
        (exec (DocumentUpsert [\<lparr>content = ''d'', topic_key = ''k''\<rparr>]) (empty_graph :: real graph))
   \<and> rels (exec (DocumentUpsert [\<lparr>content = ''d'', topic_key = ''k''\<rparr>]) (empty_graph :: real graph)) = []"
proof -
  have h: "\<not> has_node ''Topic'' ''key'' (Str ''k'') (empty_graph :: real graph)"
    by (simp add: has_node_def match_nodes_def empty_graph_def)
  show ?thesis
    using h document_write_without_topic
      [of "\<lparr>content = ''d'', topic_key = ''k''\<rparr>" "[\<lparr>content = ''d'', topic_key = ''k''\<rparr>]"
        "empty_graph :: real graph" "\<lparr>store = empty_graph, trace = []\<rparr>"]
    by (auto simp: empty_graph_def)
qed

text \<open>
  The claim C1 fails on the empty store: the write of one document record returns the
  store with the Document node and without any relationship.
\<close>

theorem document_write_counterexample:
  "\<not> has_node ''Topic'' ''key'' (Str ''k'') (empty_graph :: real graph)
   \<and> run (DocumentUpsert [\<lparr>content = ''d'', topic_key = ''k''\<rparr>])
        \<lparr>store = empty_graph :: real graph, trace = []\<rparr> =
     \<lparr>store = \<lparr>nodes = [\<lparr>label = ''Document'', props = [(''content'', Str ''d'')]\<rparr>], rels = []\<rparr>,
      trace = [DocumentUpsert [\<lparr>content = ''d'', topic_key = ''k''\<rparr>]]\<rparr>"
  by (simp add: run_def doc_row_def merge_node_def has_node_def match_nodes_def empty_graph_def
      is_node_def)

section \<open>Rows: creating and setting\<close>

lemma row_exec_split: "row_exec r g = row_set r (row_create r g)"
proof (cases r)
  case (TopicRow t)
  then show ?thesis by (simp add: topic_row_def)
next
  case (DocRow d)
  then show ?thesis by (simp add: doc_row_def merge_link_def)
next
  case (KeywordRow w k x)
  then show ?thesis
    by (simp add: keyword_row_def merge_link_def Let_def match_nodes_cong [OF nodes_fold_merge_rel])
qed

lemma row_exec_funs [simp]:
  "(\<lambda>t. row_exec (TopicRow t)) = topic_row" "(\<lambda>d. row_exec (DocRow d)) = doc_row"
  by (auto simp: fun_eq_iff)

lemma exec_rows: "exec q g = fold row_exec (stmt_rows q) g"
  by (cases q) (simp_all add: fold_map comp_def)

lemma fold_exec_rows: "fold exec qs g = fold row_exec (concat (map stmt_rows qs)) g"
  by (induction qs arbitrary: g) (simp_all add: exec_rows del: exec.simps)

lemma store_create_topic_graph:
  "store (create_topic_graph get_topic ids docs topics s) =
     fold row_exec (run_rows get_topic ids docs topics) (store s)"
proof -
  have "store (fold run qs s) = fold exec qs (store s)" for qs :: "'a stmt list"
    by (simp add: fold_run)
  then show ?thesis
    by (simp only: run_rows_def create_topic_graph_fold fold_exec_rows)
qed

section \<open>How the store operations act on matches\<close>

lemma label_assign_node [simp]: "label (assign_node l k v p a n) = label n"
  by (simp add: assign_node_def)

lemma is_node_assign_node [simp]:
  "k' \<noteq> p \<Longrightarrow> is_node l' k' v' (assign_node l k v p a n) = is_node l' k' v' n"
  by (simp add: assign_node_def is_node_def update_conv')

lemma rel_assign_rel [simp]:
  "rtype (assign_rel t ss ds p a e) = rtype e"
  "src (assign_rel t ss ds p a e) = src e"
  "dst (assign_rel t ss ds p a e) = dst e"
  by (simp_all add: assign_rel_def)

lemma match_nodes_set_node_prop [simp]:
  "k \<noteq> p \<Longrightarrow> match_nodes l k v (set_node_prop l' k' v' p a g) = match_nodes l k v g"
  unfolding match_nodes_def set_node_prop_def
  by (auto intro!: filter_cong)

lemma has_node_set_node_prop [simp]:
  "k \<noteq> p \<Longrightarrow> has_node l k v (set_node_prop l' k' v' p a g) = has_node l k v g"
  by (simp add: has_node_def)

lemma match_nodes_set_rel_prop [simp]:
  "match_nodes l k v (set_rel_prop t ss ds p a g) = match_nodes l k v g"
  by (simp add: match_nodes_def)

lemma match_nodes_merge_rel [simp]: "match_nodes l k v (merge_rel t sd g) = match_nodes l k v g"
  by (simp add: match_nodes_def)

lemma match_nodes_fold_merge_rel [simp]:
  "match_nodes l k v (fold (merge_rel t) ps g) = match_nodes l k v g"
  by (simp add: match_nodes_def)

lemma match_nodes_merge_node:
  "match_nodes l k v (merge_node l' k' v' g) =
     match_nodes l k v g @
       (if \<not> has_node l' k' v' g \<and> l = l' \<and> k = k' \<and> v = v' then [length (nodes g)] else [])"
  by (auto simp: merge_node_def match_nodes_def nth_append intro!: filter_cong)

lemma match_nodes_bound: "i \<in> set (match_nodes l k v g) \<Longrightarrow> i < length (nodes g)"
  by (simp add: mem_match_nodes)

lemma length_nodes_merge_node: "length (nodes g) \<le> length (nodes (merge_node l k v g))"
  by (simp add: merge_node_def)

lemma match_rels_set_node_prop [simp]:
  "match_rels t s d (set_node_prop l k v p a g) = match_rels t s d g"
  by (simp add: match_rels_def)

lemma match_rels_merge_node [simp]: "match_rels t s d (merge_node l k v g) = match_rels t s d g"
  by (simp add: match_rels_def)

lemma match_rels_set_rel_prop_Nil [simp]:
  "match_rels t s d (set_rel_prop t' ss ds p a g) = [] \<longleftrightarrow> match_rels t s d g = []"
  by (simp add: match_rels_def set_rel_prop_def filter_empty_conv)

lemma match_rels_merge_rel_Nil:
  "match_rels t s d (merge_rel t' sd g) = [] \<longleftrightarrow>
     match_rels t s d g = [] \<and> \<not> (t = t' \<and> s = fst sd \<and> d = snd sd)"
  by (auto simp: match_rels_def merge_rel_def filter_empty_conv)

lemma match_rels_fold_merge_rel_Nil:
  "match_rels t s d (fold (merge_rel t') ps g) = [] \<longleftrightarrow>
     match_rels t s d g = [] \<and> \<not> (t = t' \<and> (s, d) \<in> set ps)"
  by (induction ps arbitrary: g) (auto simp: match_rels_merge_rel_Nil)

section \<open>Well-formed stores\<close>

lemma wf_graph_iff:
  "wf_graph g \<longleftrightarrow> (\<forall>e \<in> set (rels g). src e < length (nodes g) \<and> dst e < length (nodes g))"
  by (simp add: wf_graph_def list_all_iff)

lemma wf_merge_node: "wf_graph g \<Longrightarrow> wf_graph (merge_node l k v g)"
  by (auto simp: wf_graph_iff merge_node_def)

lemma wf_set_node_prop [simp]: "wf_graph (set_node_prop l k v p a g) = wf_graph g"
  by (simp add: wf_graph_iff set_node_prop_def)

lemma wf_set_rel_prop [simp]: "wf_graph (set_rel_prop t ss ds p a g) = wf_graph g"
  by (simp add: wf_graph_iff set_rel_prop_def)

lemma wf_merge_rel:
  "wf_graph g \<Longrightarrow> fst sd < length (nodes g) \<Longrightarrow> snd sd < length (nodes g) \<Longrightarrow>
   wf_graph (merge_rel t sd g)"
  by (auto simp: wf_graph_iff merge_rel_def)

lemma wf_fold_merge_rel:
  "wf_graph g \<Longrightarrow> \<forall>sd \<in> set ps. fst sd < length (nodes g) \<and> snd sd < length (nodes g) \<Longrightarrow>
   wf_graph (fold (merge_rel t) ps g)"
  by (induction ps arbitrary: g) (simp_all add: wf_merge_rel)

lemma wf_merge_link: "wf_graph g \<Longrightarrow> wf_graph (merge_link l kp v t tkey g)"
  unfolding merge_link_def Let_def
  by (rule wf_fold_merge_rel) (auto simp: wf_merge_node dest: match_nodes_bound)

lemma wf_row_create: "wf_graph g \<Longrightarrow> wf_graph (row_create r g)"
  by (cases r) (simp_all add: wf_merge_node wf_merge_link)

lemma wf_row_set [simp]: "wf_graph (row_set r g) = wf_graph g"
  by (cases r) simp_all

lemma wf_row_exec: "wf_graph g \<Longrightarrow> wf_graph (row_exec r g)"
  by (simp add: row_exec_split wf_row_create)

lemma wf_fold_row_exec: "wf_graph g \<Longrightarrow> wf_graph (fold row_exec rs g)"
  by (induction rs arbitrary: g) (simp_all add: wf_row_exec)

section \<open>Property assignments: absorption and commutation\<close>

lemma assign_node_twice [simp]:
  "k \<noteq> p \<Longrightarrow> assign_node l k v p a' (assign_node l k v p a n) = assign_node l k v p a' n"
  by (simp add: assign_node_def is_node_def update_conv')

lemma assign_node_commute:
  "k \<noteq> p \<Longrightarrow> v \<noteq> v' \<Longrightarrow>
   assign_node l k v p a (assign_node l k v' p a' n) = assign_node l k v' p a' (assign_node l k v p a n)"
  by (simp add: assign_node_def is_node_def update_conv')

lemma set_node_prop_twice:
  "k \<noteq> p \<Longrightarrow> set_node_prop l k v p a' (set_node_prop l k v p a g) = set_node_prop l k v p a' g"
  by (simp add: set_node_prop_def)

lemma set_node_prop_commute:
  "k \<noteq> p \<Longrightarrow> v \<noteq> v' \<Longrightarrow>
   set_node_prop l k v p a (set_node_prop l k v' p a' g) =
   set_node_prop l k v' p a' (set_node_prop l k v p a g)"
  by (simp add: set_node_prop_def assign_node_commute)

lemma assign_rel_twice [simp]:
  "assign_rel t ss ds p a' (assign_rel t ss ds p a e) = assign_rel t ss ds p a' e"
  by (simp add: assign_rel_def)

lemma set_rel_prop_twice:
  "set_rel_prop t ss ds p a' (set_rel_prop t ss ds p a g) = set_rel_prop t ss ds p a' g"
  by (simp add: set_rel_prop_def)

lemma set_rel_prop_set_node_prop:
  "set_rel_prop t ss ds p a (set_node_prop l k v p' a' g) =
   set_node_prop l k v p' a' (set_rel_prop t ss ds p a g)"
  by (simp add: set_rel_prop_def set_node_prop_def)

lemma match_nodes_disjoint:
  "i \<in> set (match_nodes l k v g) \<Longrightarrow> i \<in> set (match_nodes l k v' g) \<Longrightarrow> v = v'"
  by (simp add: mem_match_nodes is_node_def)

lemma set_rel_prop_commute:
  assumes "set ss \<inter> set ss' = {} \<or> set ds \<inter> set ds' = {}"
  shows "set_rel_prop t ss ds p a (set_rel_prop t ss' ds' p a' g) =
         set_rel_prop t ss' ds' p a' (set_rel_prop t ss ds p a g)"
proof -
  have "assign_rel t ss ds p a (assign_rel t ss' ds' p a' e) =
        assign_rel t ss' ds' p a' (assign_rel t ss ds p a e)" for e
    using assms by (auto simp: assign_rel_def)
  then show ?thesis
    by (simp add: set_rel_prop_def)
qed

lemma row_set_same: "row_target r = row_target r' \<Longrightarrow> row_set r' (row_set r x) = row_set r' x"
  by (cases r; cases r') (simp_all add: set_node_prop_twice set_rel_prop_twice)

lemma row_set_commute:
  assumes "row_target r \<noteq> row_target r'"
  shows "row_set r (row_set r' x) = row_set r' (row_set r x)"
proof (cases r)
  case r: (TopicRow t)
  show ?thesis
  proof (cases r')
    case (TopicRow t')
    with r assms show ?thesis by (simp add: set_node_prop_commute)
  next
    case (DocRow d')
    with r show ?thesis by simp
  next
    case (KeywordRow w' k' x')
    with r show ?thesis by (simp add: set_rel_prop_set_node_prop)
  qed
next
  case (DocRow d)
  then show ?thesis by simp
next
  case r: (KeywordRow w k a)
  show ?thesis
  proof (cases r')
    case (TopicRow t')
    with r show ?thesis by (simp add: set_rel_prop_set_node_prop)
  next
    case (DocRow d')
    with r show ?thesis by simp
  next
    case (KeywordRow w' k' a')
    with r assms have "w \<noteq> w' \<or> k \<noteq> k'" by auto
    then have "set (match_nodes ''Keyword'' ''word'' (Str w) x)
          \<inter> set (match_nodes ''Keyword'' ''word'' (Str w') x) = {}
        \<or> set (match_nodes ''Topic'' ''key'' (Str k) x)
          \<inter> set (match_nodes ''Topic'' ''key'' (Str k') x) = {}"
      by (auto dest: match_nodes_disjoint)
    with r KeywordRow show ?thesis
      by (simp add: set_rel_prop_commute)
  qed
qed

text \<open>Assignments of rows that have a later row with the same target are absorbed.\<close>

lemma fold_row_set_absorb:
  "row_target r \<in> row_target ` set rs \<Longrightarrow> fold row_set rs (row_set r x) = fold row_set rs x"
proof (induction rs arbitrary: x)
  case Nil
  then show ?case by simp
next
  case (Cons r' rs)
  show ?case
  proof (cases "row_target r' = row_target r")
    case True
    then show ?thesis by (simp add: row_set_same)
  next
    case False
    with Cons.prems have "row_target r \<in> row_target ` set rs" by auto
    from Cons.IH [OF this] False show ?thesis
      by (simp add: row_set_commute [of r' r])
  qed
qed

lemma fold_row_set_fixed:
  assumes "\<And>pre r post. rs = pre @ r # post \<Longrightarrow> row_target r \<notin> row_target ` set post \<Longrightarrow>
             row_set r x = x"
  shows "fold row_set rs x = x"
  using assms
proof (induction rs)
  case Nil
  show ?case by simp
next
  case (Cons r rs)
  have rest: "fold row_set rs x = x"
  proof (rule Cons.IH)
    fix pre r' post
    assume "rs = pre @ r' # post" and "row_target r' \<notin> row_target ` set post"
    then show "row_set r' x = x"
      using Cons.prems [of "r # pre" r' post] by simp
  qed
  show ?case
  proof (cases "row_target r \<in> row_target ` set rs")
    case True
    then show ?thesis by (simp add: fold_row_set_absorb rest)
  next
    case False
    then have "row_set r x = x"
      using Cons.prems [of "[]" r rs] by simp
    then show ?thesis by (simp add: rest)
  qed
qed

section \<open>Property assignments commute with the creation of other rows\<close>

lemma has_node_set_rel_prop [simp]: "has_node l k v (set_rel_prop t ss ds p a g) = has_node l k v g"
  by (simp add: has_node_def)

lemma set_node_prop_merge_node:
  assumes "k' \<noteq> p" and "\<not> (l = l' \<and> k = k' \<and> v = v')"
  shows "set_node_prop l k v p a (merge_node l' k' v' g) =
         merge_node l' k' v' (set_node_prop l k v p a g)"
proof -
  have "assign_node l k v p a \<lparr>label = l', props = [(k', v')]\<rparr> = \<lparr>label = l', props = [(k', v')]\<rparr>"
    using assms(2) by (auto simp: assign_node_def)
  then show ?thesis
    using assms(1) by (simp add: merge_node_def) (simp add: set_node_prop_def)
qed

lemma merge_rel_set_node_prop:
  "merge_rel t sd (set_node_prop l k v p a g) = set_node_prop l k v p a (merge_rel t sd g)"
  by (simp add: merge_rel_def) (simp add: set_node_prop_def)

lemma fold_merge_rel_set_node_prop:
  "fold (merge_rel t) ps (set_node_prop l k v p a g) =
   set_node_prop l k v p a (fold (merge_rel t) ps g)"
  by (induction ps arbitrary: g) (simp_all add: merge_rel_set_node_prop)

lemma set_node_prop_merge_link:
  assumes "kp \<noteq> p" and "''key'' \<noteq> p" and "\<not> (l = l' \<and> k = kp \<and> v = v')"
  shows "set_node_prop l k v p a (merge_link l' kp v' t tkey g) =
         merge_link l' kp v' t tkey (set_node_prop l k v p a g)"
  using assms
  by (simp add: merge_link_def Let_def set_node_prop_merge_node [symmetric]
      fold_merge_rel_set_node_prop)

lemma merge_rel_set_rel_prop:
  assumes "\<not> (t' = t \<and> fst sd \<in> set ss \<and> snd sd \<in> set ds)"
  shows "merge_rel t' sd (set_rel_prop t ss ds p a g) = set_rel_prop t ss ds p a (merge_rel t' sd g)"
proof -
  have "assign_rel t ss ds p a \<lparr>src = fst sd, rtype = t', dst = snd sd, rprops = []\<rparr> =
      \<lparr>src = fst sd, rtype = t', dst = snd sd, rprops = []\<rparr>"
    using assms by (simp add: assign_rel_def)
  then show ?thesis
    by (simp add: merge_rel_def) (simp add: set_rel_prop_def)
qed

lemma fold_merge_rel_set_rel_prop:
  assumes "\<forall>sd \<in> set ps. \<not> (t' = t \<and> fst sd \<in> set ss \<and> snd sd \<in> set ds)"
  shows "fold (merge_rel t') ps (set_rel_prop t ss ds p a g) =
         set_rel_prop t ss ds p a (fold (merge_rel t') ps g)"
  using assms by (induction ps arbitrary: g) (simp_all add: merge_rel_set_rel_prop)

lemma set_rel_prop_cong:
  assumes "\<And>e. e \<in> set (rels g) \<Longrightarrow>
             (src e \<in> set ss \<and> dst e \<in> set ds) = (src e \<in> set ss' \<and> dst e \<in> set ds')"
  shows "set_rel_prop t ss ds p a g = set_rel_prop t ss' ds' p a g"
proof -
  have "map (assign_rel t ss ds p a) (rels g) = map (assign_rel t ss' ds' p a) (rels g)"
    by (rule map_cong [OF refl]) (use assms in \<open>auto simp: assign_rel_def\<close>)
  then show ?thesis by (simp add: set_rel_prop_def)
qed

text \<open>
  The assignment of a keyword row, with the matches taken in the store it is applied to.
\<close>

lemma set_rel_prop_merge_node:
  assumes "wf_graph g"
  shows "set_rel_prop t (match_nodes l1 k1 v1 (merge_node l k v g))
           (match_nodes l2 k2 v2 (merge_node l k v g)) p a (merge_node l k v g) =
         merge_node l k v (set_rel_prop t (match_nodes l1 k1 v1 g) (match_nodes l2 k2 v2 g) p a g)"
proof -
  have "set_rel_prop t (match_nodes l1 k1 v1 (merge_node l k v g))
           (match_nodes l2 k2 v2 (merge_node l k v g)) p a g =
        set_rel_prop t (match_nodes l1 k1 v1 g) (match_nodes l2 k2 v2 g) p a g"
  proof (rule set_rel_prop_cong)
    fix e assume "e \<in> set (rels g)"
    with assms have "src e < length (nodes g)" "dst e < length (nodes g)"
      by (auto simp: wf_graph_iff)
    then show "(src e \<in> set (match_nodes l1 k1 v1 (merge_node l k v g))
          \<and> dst e \<in> set (match_nodes l2 k2 v2 (merge_node l k v g))) =
        (src e \<in> set (match_nodes l1 k1 v1 g) \<and> dst e \<in> set (match_nodes l2 k2 v2 g))"
      by (auto simp: match_nodes_merge_node)
  qed
  moreover have "set_rel_prop t ss ds p a (merge_node l k v g) =
      merge_node l k v (set_rel_prop t ss ds p a g)" for ss ds
    by (simp add: merge_node_def) (simp add: set_rel_prop_def)
  ultimately show ?thesis by simp
qed

lemma keyword_set_merge_link:
  assumes wf: "wf_graph g"
    and other: "\<not> (t = ''REPRESENTS'' \<and> l = ''Keyword'' \<and> kp = ''word'' \<and> v = Str w \<and> tkey = k)"
    and kinds: "l = ''Keyword'' \<longrightarrow> kp = ''word''"
  shows "row_set (KeywordRow w k a) (merge_link l kp v t tkey g) =
         merge_link l kp v t tkey (row_set (KeywordRow w k a) g)"
proof -
  let ?g1 = "merge_node l kp v g"
  let ?ps = "List.product (match_nodes l kp v ?g1) (match_nodes ''Topic'' ''key'' (Str tkey) ?g1)"
  let ?K = "match_nodes ''Keyword'' ''word'' (Str w)"
  let ?T = "match_nodes ''Topic'' ''key'' (Str k)"
  let ?S = "\<lambda>g. set_rel_prop ''REPRESENTS'' (?K g) (?T g) ''strength'' (Num a) g"
  have ps: "\<forall>sd \<in> set ?ps. \<not> (t = ''REPRESENTS'' \<and> fst sd \<in> set (?K ?g1) \<and> snd sd \<in> set (?T ?g1))"
  proof (intro ballI notI)
    fix sd assume sd: "sd \<in> set ?ps"
      and c: "t = ''REPRESENTS'' \<and> fst sd \<in> set (?K ?g1) \<and> snd sd \<in> set (?T ?g1)"
    from sd have s: "fst sd \<in> set (match_nodes l kp v ?g1)"
      and d: "snd sd \<in> set (match_nodes ''Topic'' ''key'' (Str tkey) ?g1)"
      by (simp_all add: mem_Times_iff)
    from c have s': "fst sd \<in> set (?K ?g1)" and d': "snd sd \<in> set (?T ?g1)"
      by simp_all
    from s s' have l: "l = ''Keyword''"
      by (simp add: mem_match_nodes is_node_def)
    with kinds have kp: "kp = ''word''" by simp
    from s s' have "v = Str w"
      unfolding l kp by (rule match_nodes_disjoint)
    moreover from d d' have "Str tkey = (Str k :: 'a pval)"
      by (rule match_nodes_disjoint)
    ultimately show False
      using other c l kp by simp
  qed
  have "row_set (KeywordRow w k a) (merge_link l kp v t tkey g) =
      set_rel_prop ''REPRESENTS'' (?K ?g1) (?T ?g1) ''strength'' (Num a) (fold (merge_rel t) ?ps ?g1)"
    by (simp add: merge_link_def Let_def)
  also have "\<dots> = fold (merge_rel t) ?ps (?S ?g1)"
    by (rule fold_merge_rel_set_rel_prop [symmetric]) (rule ps)
  also have "?S ?g1 = merge_node l kp v (?S g)"
    by (rule set_rel_prop_merge_node [OF wf])
  also have "fold (merge_rel t) ?ps (merge_node l kp v (?S g)) = merge_link l kp v t tkey (?S g)"
    by (simp add: merge_link_def Let_def match_nodes_merge_node)
  finally show ?thesis by simp
qed

lemma row_set_create_commute:
  assumes "wf_graph x" and "row_target r \<noteq> row_target r'"
  shows "row_set r (row_create r' x) = row_create r' (row_set r x)"
proof (cases r)
  case r: (TopicRow t)
  show ?thesis
  proof (cases r')
    case (TopicRow t')
    with r assms show ?thesis by (simp add: set_node_prop_merge_node)
  next
    case (DocRow d')
    with r show ?thesis by (simp add: set_node_prop_merge_link)
  next
    case (KeywordRow w' k' x')
    with r show ?thesis by (simp add: set_node_prop_merge_link)
  qed
next
  case (DocRow d)
  then show ?thesis by simp
next
  case r: (KeywordRow w k a)
  show ?thesis
  proof (cases r')
    case (TopicRow t')
    with r show ?thesis
      using set_rel_prop_merge_node [OF assms(1)] by simp
  next
    case (DocRow d')
    with r show ?thesis
      using keyword_set_merge_link [OF assms(1), of "''BELONGS_TO''"] by simp
  next
    case (KeywordRow w' k' a')
    with r assms(2) have "\<not> (w' = w \<and> k' = k)" by auto
    with r KeywordRow show ?thesis
      using keyword_set_merge_link [OF assms(1), of "''REPRESENTS''" "''Keyword''" "''word''"]
      by simp
  qed
qed

lemma row_set_exec_commute:
  assumes "wf_graph x" and "row_target r \<noteq> row_target r'"
  shows "row_set r (row_exec r' x) = row_exec r' (row_set r x)"
  using assms
  by (simp add: row_exec_split row_set_commute [of r r'] row_set_create_commute wf_row_create)

lemma row_set_fold_exec_commute:
  assumes "wf_graph x" and "row_target r \<notin> row_target ` set rs"
  shows "row_set r (fold row_exec rs x) = fold row_exec rs (row_set r x)"
  using assms
proof (induction rs arbitrary: x)
  case Nil
  show ?case by simp
next
  case (Cons r' rs)
  from Cons.prems have "row_target r \<noteq> row_target r'" by auto
  with Cons show ?case
    by (simp add: wf_row_exec row_set_exec_commute)
qed

lemma row_set_after_exec: "row_set r (row_exec r x) = row_exec r x"
  by (simp add: row_exec_split row_set_same)

text \<open>A row without a later row of the same target has the last word on its target.\<close>

lemma last_writer_fixed:
  assumes "wf_graph g" and "row_target r \<notin> row_target ` set post"
  shows "row_set r (fold row_exec (pre @ r # post) g) = fold row_exec (pre @ r # post) g"
proof -
  have "wf_graph (row_exec r (fold row_exec pre g))"
    using assms(1) by (simp add: wf_fold_row_exec wf_row_exec)
  from row_set_fold_exec_commute [OF this assms(2)] show ?thesis
    by (simp add: row_set_after_exec)
qed

section \<open>Rows that find everything in place\<close>

lemma fold_merge_rel_id:
  "list_all (\<lambda>sd. match_rels t (fst sd) (snd sd) g \<noteq> []) ps \<Longrightarrow> fold (merge_rel t) ps g = g"
  by (induction ps) (simp_all add: merge_rel_def)

lemma linked_id: "linked l kp v t tkey g \<Longrightarrow> merge_link l kp v t tkey g = g"
  by (simp add: linked_def merge_link_def merge_node_def fold_merge_rel_id)

lemma linked_after: "linked l kp v t tkey (merge_link l kp v t tkey g)"
proof -
  let ?g1 = "merge_node l kp v g"
  let ?ps = "List.product (match_nodes l kp v ?g1) (match_nodes ''Topic'' ''key'' (Str tkey) ?g1)"
  have "has_node l kp v (fold (merge_rel t) ?ps ?g1)"
    by (simp add: has_node_def match_nodes_merge_node)
  moreover have "list_all (\<lambda>sd. match_rels t (fst sd) (snd sd) (fold (merge_rel t) ?ps ?g1) \<noteq> []) ?ps"
    by (simp add: list_all_iff match_rels_fold_merge_rel_Nil)
  ultimately show ?thesis
    by (simp add: linked_def merge_link_def Let_def)
qed

lemma linked_set_node_prop:
  "kp \<noteq> p \<Longrightarrow> ''key'' \<noteq> p \<Longrightarrow>
   linked l kp v t tkey (set_node_prop l' k' v' p a g) = linked l kp v t tkey g"
  by (simp add: linked_def)

lemma linked_set_rel_prop:
  "linked l kp v t tkey (set_rel_prop t' ss ds p a g) = linked l kp v t tkey g"
  by (simp add: linked_def)

lemma has_node_merge_link:
  "has_node l k v g \<Longrightarrow> has_node l k v (merge_link l' kp' v' t' tkey' g)"
  by (simp add: merge_link_def Let_def has_node_def match_nodes_merge_node)

lemma linked_merge_link:
  assumes "linked l kp v t tkey g" and "l' \<noteq> ''Topic''"
  shows "linked l kp v t tkey (merge_link l' kp' v' t' tkey' g)"
proof -
  let ?g' = "merge_link l' kp' v' t' tkey' g"
  from assms(1) have h: "has_node l kp v g"
    by (simp add: linked_def)
  then have n: "match_nodes l kp v ?g' = match_nodes l kp v g"
    by (auto simp: merge_link_def Let_def match_nodes_merge_node)
  from assms(2) have t: "match_nodes ''Topic'' ''key'' (Str tkey) ?g' =
      match_nodes ''Topic'' ''key'' (Str tkey) g"
    by (simp add: merge_link_def Let_def match_nodes_merge_node)
  have "match_rels t s d g \<noteq> [] \<Longrightarrow> match_rels t s d ?g' \<noteq> []" for s d
    by (simp add: merge_link_def Let_def match_rels_fold_merge_rel_Nil)
  with assms(1) show ?thesis
    by (auto simp: linked_def n t list_all_iff has_node_merge_link)
qed

lemma row_done_id: "row_done r g \<Longrightarrow> row_create r g = g"
  by (cases r) (simp_all add: linked_id merge_node_def)

lemma row_done_create: "row_done r (row_create r g)"
  by (cases r) (simp_all add: linked_after has_node_merge_node)

lemma row_done_set: "row_done r (row_set r' g) = row_done r g"
  by (cases r; cases r') (simp_all add: linked_set_node_prop linked_set_rel_prop)

lemma row_done_create_other:
  assumes "row_done r g" and "is_topic_row r \<or> \<not> is_topic_row r'"
  shows "row_done r (row_create r' g)"
proof (cases r)
  case (TopicRow t)
  with assms(1) show ?thesis
    by (cases r') (simp_all add: has_node_merge_node has_node_merge_link)
next
  case (DocRow d)
  with assms show ?thesis
    by (cases r') (simp_all add: linked_merge_link)
next
  case (KeywordRow w k a)
  with assms show ?thesis
    by (cases r') (simp_all add: linked_merge_link)
qed

lemma row_done_exec: "row_done r (row_exec r g)"
  by (simp add: row_exec_split row_done_set row_done_create)

lemma row_done_exec_other:
  "row_done r g \<Longrightarrow> is_topic_row r \<or> \<not> is_topic_row r' \<Longrightarrow> row_done r (row_exec r' g)"
  by (simp add: row_exec_split row_done_set row_done_create_other)

lemma row_done_fold:
  assumes "row_done r g" and "is_topic_row r \<or> list_all (\<lambda>r'. \<not> is_topic_row r') rs"
  shows "row_done r (fold row_exec rs g)"
  using assms
proof (induction rs arbitrary: g)
  case Nil
  then show ?case by simp
next
  case (Cons r' rs)
  from Cons.prems have "row_done r (row_exec r' g)"
    by (auto intro: row_done_exec_other)
  with Cons show ?case by auto
qed

lemma all_rows_done:
  assumes "topics_first rs" and "r \<in> set rs"
  shows "row_done r (fold row_exec rs g)"
  using assms
proof (induction rs arbitrary: g)
  case Nil
  then show ?case by simp
next
  case (Cons r' rs)
  show ?case
  proof (cases "r = r'")
    case True
    have "is_topic_row r' \<or> list_all (\<lambda>x. \<not> is_topic_row x) rs"
      using Cons.prems(1) by (simp split: if_splits)
    from row_done_fold [OF row_done_exec this] True show ?thesis by simp
  next
    case False
    with Cons.prems have r: "r \<in> set rs" by simp
    have "topics_first rs"
      using Cons.prems(1) by (cases rs) (auto split: if_splits)
    from Cons.IH [OF this r] show ?thesis by simp
  qed
qed

lemma fold_exec_done:
  "\<forall>r \<in> set rs. row_done r g \<Longrightarrow> fold row_exec rs g = fold row_set rs g"
proof (induction rs arbitrary: g)
  case Nil
  show ?case by simp
next
  case (Cons r rs)
  then have "row_exec r g = row_set r g"
    by (simp add: row_exec_split row_done_id)
  with Cons show ?case
    by (simp add: row_done_set)
qed

lemma stmt_rows_keyword:
  "list_all is_keyword_upsert qs \<Longrightarrow>
   list_all (\<lambda>r. \<not> is_topic_row r) (concat (map stmt_rows qs))"
proof (induction qs)
  case Nil
  show ?case by simp
next
  case (Cons q qs)
  then show ?case by (cases q) simp_all
qed

lemma topics_first_append:
  "list_all is_topic_row ts \<Longrightarrow> list_all (\<lambda>r. \<not> is_topic_row r) rs \<Longrightarrow> topics_first (ts @ rs)"
proof (induction ts)
  case Nil
  then show ?case by (cases rs) simp_all
next
  case (Cons t ts)
  then show ?case by simp
qed

lemma topics_first_run_rows: "topics_first (run_rows get_topic ids docs topics)"
proof -
  have ts: "list_all is_topic_row (map TopicRow (topic_queries get_topic ids))"
    by (simp add: list_all_iff)
  have rs: "list_all (\<lambda>r. \<not> is_topic_row r)
      (map DocRow (doc_queries get_topic docs topics)
       @ concat (map stmt_rows (keyword_queries get_topic ids)))"
    using stmt_rows_keyword [OF keyword_queries_kind, of get_topic ids]
    by (auto simp: list_all_iff)
  have "run_rows get_topic ids docs topics =
      map TopicRow (topic_queries get_topic ids)
      @ (map DocRow (doc_queries get_topic docs topics)
         @ concat (map stmt_rows (keyword_queries get_topic ids)))"
    by (simp add: run_rows_def)
  with topics_first_append [OF ts rs] show ?thesis
    by (simp only:)
qed

text \<open>Executing the rows of a run a second time changes nothing.\<close>

lemma rows_idempotent:
  assumes "wf_graph g" and "topics_first rs"
  shows "fold row_exec rs (fold row_exec rs g) = fold row_exec rs g"
proof -
  let ?g1 = "fold row_exec rs g"
  have "\<forall>r \<in> set rs. row_done r ?g1"
    using all_rows_done [OF assms(2)] by blast
  then have "fold row_exec rs ?g1 = fold row_set rs ?g1"
    by (rule fold_exec_done)
  also have "\<dots> = ?g1"
  proof (rule fold_row_set_fixed)
    fix pre r post
    assume "rs = pre @ r # post" and "row_target r \<notin> row_target ` set post"
    then show "row_set r ?g1 = ?g1"
      using last_writer_fixed [OF assms(1)] by simp
  qed
  finally show ?thesis .
qed

text \<open>
  C5. On a well-formed store, a second run with the same input leaves the store of the
  first run as it is: no node and no relationship is added and every property keeps
  its value.
\<close>

theorem create_topic_graph_idempotent:
  assumes "wf_graph (store s)"
  shows "store (create_topic_graph get_topic ids docs topics
                  (create_topic_graph get_topic ids docs topics s)) =
         store (create_topic_graph get_topic ids docs topics s)"
  using rows_idempotent [OF assms topics_first_run_rows]
  by (simp add: store_create_topic_graph)

section \<open>No duplicates\<close>

lemma length_match_nodes_merge_node:
  "length (match_nodes l k v g) \<le> 1 \<Longrightarrow> length (match_nodes l k v (merge_node l' k' v' g)) \<le> 1"
  by (auto simp: match_nodes_merge_node has_node_def)

lemma no_duplicate_nodes_merge_node:
  "no_duplicate_nodes g \<Longrightarrow> no_duplicate_nodes (merge_node l k v g)"
  unfolding no_duplicate_nodes_def by (blast intro: length_match_nodes_merge_node)

lemma no_duplicate_nodes_cong:
  "(\<And>l k v. k \<noteq> ''keywords'' \<Longrightarrow> match_nodes l k v g' = match_nodes l k v g) \<Longrightarrow>
   no_duplicate_nodes g' = no_duplicate_nodes g"
  by (simp add: no_duplicate_nodes_def)

lemma no_duplicate_nodes_merge_link:
  "no_duplicate_nodes g \<Longrightarrow> no_duplicate_nodes (merge_link l kp v t tkey g)"
  using no_duplicate_nodes_merge_node [of g l kp v]
  by (simp add: merge_link_def Let_def no_duplicate_nodes_def)

lemma no_duplicate_nodes_row_set [simp]: "no_duplicate_nodes (row_set r g) = no_duplicate_nodes g"
  by (cases r) (simp_all add: no_duplicate_nodes_def)

lemma no_duplicate_nodes_row_exec: "no_duplicate_nodes g \<Longrightarrow> no_duplicate_nodes (row_exec r g)"
  unfolding row_exec_split no_duplicate_nodes_row_set
  by (cases r) (simp_all add: no_duplicate_nodes_merge_node no_duplicate_nodes_merge_link)

lemma rel_ends_set_rel_prop [simp]:
  "map (\<lambda>e. (rtype e, src e, dst e)) (rels (set_rel_prop t ss ds p a g)) =
   map (\<lambda>e. (rtype e, src e, dst e)) (rels g)"
  by (simp add: set_rel_prop_def comp_def)

lemma match_rels_Nil_iff:
  "match_rels t s d g = [] \<longleftrightarrow> (t, s, d) \<notin> set (map (\<lambda>e. (rtype e, src e, dst e)) (rels g))"
  by (auto simp: match_rels_def filter_empty_conv)

lemma no_duplicate_rels_merge_rel:
  "no_duplicate_rels g \<Longrightarrow> no_duplicate_rels (merge_rel t sd g)"
  unfolding no_duplicate_rels_def merge_rel_def
  by (simp add: match_rels_Nil_iff)

lemma no_duplicate_rels_fold_merge_rel:
  "no_duplicate_rels g \<Longrightarrow> no_duplicate_rels (fold (merge_rel t) ps g)"
  by (induction ps arbitrary: g) (simp_all add: no_duplicate_rels_merge_rel)

lemma no_duplicate_rels_merge_node [simp]:
  "no_duplicate_rels (merge_node l k v g) = no_duplicate_rels g"
  by (simp add: no_duplicate_rels_def)

lemma no_duplicate_rels_merge_link:
  "no_duplicate_rels g \<Longrightarrow> no_duplicate_rels (merge_link l kp v t tkey g)"
  by (simp add: merge_link_def Let_def no_duplicate_rels_fold_merge_rel)

lemma no_duplicate_rels_row_set [simp]: "no_duplicate_rels (row_set r g) = no_duplicate_rels g"
  by (cases r) (simp_all add: no_duplicate_rels_def)

lemma no_duplicate_rels_row_exec: "no_duplicate_rels g \<Longrightarrow> no_duplicate_rels (row_exec r g)"
  unfolding row_exec_split no_duplicate_rels_row_set
  by (cases r) (simp_all add: no_duplicate_rels_merge_link)

lemma no_duplicates_exec:
  "no_duplicate_nodes g \<Longrightarrow> no_duplicate_nodes (exec q g)"
  "no_duplicate_rels g \<Longrightarrow> no_duplicate_rels (exec q g)"
proof -
  have "no_duplicate_nodes g \<Longrightarrow> no_duplicate_nodes (fold row_exec rs g)" for rs
    by (induction rs arbitrary: g) (simp_all add: no_duplicate_nodes_row_exec)
  moreover have "no_duplicate_rels g \<Longrightarrow> no_duplicate_rels (fold row_exec rs g)" for rs
    by (induction rs arbitrary: g) (simp_all add: no_duplicate_rels_row_exec)
  ultimately show "no_duplicate_nodes g \<Longrightarrow> no_duplicate_nodes (exec q g)"
    and "no_duplicate_rels g \<Longrightarrow> no_duplicate_rels (exec q g)"
    by (simp_all add: exec_rows)
qed

section \<open>The strength of a keyword within a topic\<close>

lemma length_le_one_same:
  assumes "length xs \<le> 1" and "x \<in> set xs" and "y \<in> set xs"
  shows "x = y"
  using assms by (cases xs) auto

lemma distinct_map_le_one:
  assumes "distinct (map f xs)" and "\<And>x y. x \<in> set xs \<Longrightarrow> y \<in> set xs \<Longrightarrow> f x = f y"
  shows "length xs \<le> 1"
proof (cases xs)
  case Nil
  then show ?thesis by simp
next
  case (Cons x ys)
  show ?thesis
  proof (cases ys)
    case Nil
    with Cons show ?thesis by simp
  next
    case (Cons y zs)
    with \<open>xs = x # ys\<close> assms(2) [of x y] assms(1) show ?thesis by simp
  qed
qed

lemma represents_edges_le_one:
  assumes "no_duplicate_nodes g" and "no_duplicate_rels g"
  shows "length (represents_edges w k g) \<le> 1"
proof (rule distinct_map_le_one [where f = "\<lambda>e. (rtype e, src e, dst e)"])
  show "distinct (map (\<lambda>e. (rtype e, src e, dst e)) (represents_edges w k g))"
    using assms(2) unfolding no_duplicate_rels_def represents_edges_def
    by (rule distinct_map_filter)
next
  fix x y
  assume "x \<in> set (represents_edges w k g)" and "y \<in> set (represents_edges w k g)"
  then have t: "rtype x = rtype y"
    and s: "src x \<in> set (match_nodes ''Keyword'' ''word'' (Str w) g)"
      "src y \<in> set (match_nodes ''Keyword'' ''word'' (Str w) g)"
    and d: "dst x \<in> set (match_nodes ''Topic'' ''key'' (Str k) g)"
      "dst y \<in> set (match_nodes ''Topic'' ''key'' (Str k) g)"
    by (simp_all add: represents_edges_def)
  have "length (match_nodes ''Keyword'' ''word'' (Str w) g) \<le> 1"
    and "length (match_nodes ''Topic'' ''key'' (Str k) g) \<le> 1"
    using assms(1) by (simp_all add: no_duplicate_nodes_def)
  then have "src x = src y" and "dst x = dst y"
    using s d by (blast intro: length_le_one_same)+
  with t show "(rtype x, src x, dst x) = (rtype y, src y, dst y)"
    by simp
qed

lemma match_nodes_rels_update [simp]: "match_nodes l k v (g\<lparr>rels := rs\<rparr>) = match_nodes l k v g"
  by (simp add: match_nodes_def)

lemma represents_edges_set_rel_prop:
  "represents_edges w k
     (set_rel_prop ''REPRESENTS'' (match_nodes ''Keyword'' ''word'' (Str w) g)
        (match_nodes ''Topic'' ''key'' (Str k) g) p a g) =
   map (\<lambda>e. e\<lparr>rprops := AList.update p a (rprops e)\<rparr>) (represents_edges w k g)"
proof -
  let ?P = "\<lambda>e. rtype e = ''REPRESENTS''
      \<and> src e \<in> set (match_nodes ''Keyword'' ''word'' (Str w) g)
      \<and> dst e \<in> set (match_nodes ''Topic'' ''key'' (Str k) g)"
  let ?f = "assign_rel ''REPRESENTS'' (match_nodes ''Keyword'' ''word'' (Str w) g)
      (match_nodes ''Topic'' ''key'' (Str k) g) p a"
  have "filter ?P (map ?f xs) = map (\<lambda>e. e\<lparr>rprops := AList.update p a (rprops e)\<rparr>) (filter ?P xs)"
    for xs
    by (induction xs) (auto simp: assign_rel_def)
  then show ?thesis
    by (simp add: represents_edges_def set_rel_prop_def)
qed

lemma represents_edges_merge_link:
  assumes "has_node ''Topic'' ''key'' (Str k) g"
  shows "represents_edges w k (merge_link ''Keyword'' ''word'' (Str w) ''REPRESENTS'' k g) \<noteq> []"
proof -
  let ?g2 = "merge_link ''Keyword'' ''word'' (Str w) ''REPRESENTS'' k g"
  have l: "linked ''Keyword'' ''word'' (Str w) ''REPRESENTS'' k ?g2"
    by (rule linked_after)
  then have "has_node ''Keyword'' ''word'' (Str w) ?g2"
    by (simp add: linked_def)
  then obtain i where i: "i \<in> set (match_nodes ''Keyword'' ''word'' (Str w) ?g2)"
    unfolding has_node_def using hd_in_set by blast
  from assms have "has_node ''Topic'' ''key'' (Str k) ?g2"
    by (rule has_node_merge_link)
  then obtain j where j: "j \<in> set (match_nodes ''Topic'' ''key'' (Str k) ?g2)"
    unfolding has_node_def using hd_in_set by blast
  from l i j have "match_rels ''REPRESENTS'' i j ?g2 \<noteq> []"
    by (auto simp: linked_def list_all_iff)
  then obtain e where "e \<in> set (rels ?g2)" "rtype e = ''REPRESENTS''" "src e = i" "dst e = j"
    by (auto simp: match_rels_def filter_empty_conv)
  with i j have "e \<in> set (represents_edges w k ?g2)"
    by (simp add: represents_edges_def)
  then show ?thesis by auto
qed

lemma keyword_row_strength:
  assumes "no_duplicate_nodes g" and "no_duplicate_rels g"
    and "has_node ''Topic'' ''key'' (Str k) g"
  shows "map (\<lambda>e. map_of (rprops e) ''strength'') (represents_edges w k (keyword_row w k a g)) =
         [Some (Num a)]"
proof -
  let ?g2 = "merge_link ''Keyword'' ''word'' (Str w) ''REPRESENTS'' k g"
  have "length (represents_edges w k ?g2) \<le> 1"
    using assms(1,2)
    by (intro represents_edges_le_one no_duplicate_nodes_merge_link no_duplicate_rels_merge_link)
  with represents_edges_merge_link [OF assms(3), of w]
  obtain e where e: "represents_edges w k ?g2 = [e]"
    by (cases "represents_edges w k ?g2") auto
  have "keyword_row w k a g = row_set (KeywordRow w k a) ?g2"
    using row_exec_split [of "KeywordRow w k a" g] by simp
  then show ?thesis
    by (simp add: represents_edges_set_rel_prop e update_conv')
qed

text \<open>
  C7. In a store without duplicates that holds the topic, writing a keyword statement
  for a word and the topic twice, first with strength \<open>s1\<close> and then with \<open>s2\<close>, leaves
  exactly one \<open>REPRESENTS\<close> relationship between them, with strength \<open>s2\<close>. Every
  statement keeps the store free of duplicates, and such a store has at most one
  \<open>REPRESENTS\<close> relationship for every word and key.
\<close>

theorem keyword_edge_overwritten:
  assumes "no_duplicate_nodes g" and "no_duplicate_rels g"
    and "has_node ''Topic'' ''key'' (Str tkey) g"
  shows "map (\<lambda>e. map_of (rprops e) ''strength'')
           (represents_edges word tkey
              (exec (KeywordUpsert word tkey s2) (exec (KeywordUpsert word tkey s1) g))) =
         [Some (Num s2)]
       \<and> no_duplicate_nodes (exec q g) \<and> no_duplicate_rels (exec q g)
       \<and> length (represents_edges w k g) \<le> 1"
proof -
  let ?g1 = "exec (KeywordUpsert word tkey s1) g"
  have "no_duplicate_nodes ?g1"
    using assms(1) by (rule no_duplicates_exec)
  moreover have "no_duplicate_rels ?g1"
    using assms(2) by (rule no_duplicates_exec)
  moreover have "has_node ''Topic'' ''key'' (Str tkey) ?g1"
    using row_done_exec_other [of "TopicRow \<lparr>key = tkey, keywords_of = []\<rparr>" g "KeywordRow word tkey s1"]
      assms(3) by simp
  ultimately have "map (\<lambda>e. map_of (rprops e) ''strength'')
      (represents_edges word tkey (keyword_row word tkey s2 ?g1)) = [Some (Num s2)]"
    by (rule keyword_row_strength)
  then show ?thesis
    using assms(1,2) represents_edges_le_one [OF assms(1,2), of w k]
    by (simp add: no_duplicates_exec)
qed

lemmas store_eval =
  topic_row_def doc_row_def keyword_row_def merge_node_def has_node_def match_nodes_def
  is_node_def set_node_prop_def assign_node_def merge_rel_def match_rels_def set_rel_prop_def
  assign_rel_def Let_def

theorem keyword_edge_overwritten_witness:
  "no_duplicate_nodes
     (\<lparr>nodes = [\<lparr>label = ''Topic'', props = [(''key'', Str ''T'')]\<rparr>], rels = []\<rparr> :: real graph)
   \<and> no_duplicate_rels
     (\<lparr>nodes = [\<lparr>label = ''Topic'', props = [(''key'', Str ''T'')]\<rparr>], rels = []\<rparr> :: real graph)
   \<and> has_node ''Topic'' ''key'' (Str ''T'')
     (\<lparr>nodes = [\<lparr>label = ''Topic'', props = [(''key'', Str ''T'')]\<rparr>], rels = []\<rparr> :: real graph)
   \<and> map (\<lambda>e. map_of (rprops e) ''strength'')
       (represents_edges ''crisis'' ''T''
          (exec (KeywordUpsert ''crisis'' ''T'' (5 / 10))
             (exec (KeywordUpsert ''crisis'' ''T'' (8 / 10))
                (\<lparr>nodes = [\<lparr>label = ''Topic'', props = [(''key'', Str ''T'')]\<rparr>], rels = []\<rparr>
                   :: real graph)))) =
     [Some (Num (5 / 10))]
   \<and> exec (KeywordUpsert ''crisis'' ''T'' (5 / 10))
        (exec (KeywordUpsert ''crisis'' ''T'' (8 / 10))
           (\<lparr>nodes = [\<lparr>label = ''Topic'', props = [(''key'', Str ''T'')]\<rparr>], rels = []\<rparr>
              :: real graph)) =
     \<lparr>nodes = [\<lparr>label = ''Topic'', props = [(''key'', Str ''T'')]\<rparr>,
               \<lparr>label = ''Keyword'', props = [(''word'', Str ''crisis'')]\<rparr>],
      rels = [\<lparr>src = 1, rtype = ''REPRESENTS'', dst = 0, rprops = [(''strength'', Num (5 / 10))]\<rparr>]\<rparr>"
proof -
  let ?g = "\<lparr>nodes = [\<lparr>label = ''Topic'', props = [(''key'', Str ''T'')]\<rparr>], rels = []\<rparr> :: real graph"
  have a: "no_duplicate_nodes ?g"
    by (simp add: no_duplicate_nodes_def match_nodes_def)
  have b: "no_duplicate_rels ?g"
    by (simp add: no_duplicate_rels_def)
  have c: "has_node ''Topic'' ''key'' (Str ''T'') ?g"
    by (simp add: has_node_def match_nodes_def is_node_def)
  have d: "exec (KeywordUpsert ''crisis'' ''T'' (5 / 10)) (exec (KeywordUpsert ''crisis'' ''T'' (8 / 10)) ?g) =
     \<lparr>nodes = [\<lparr>label = ''Topic'', props = [(''key'', Str ''T'')]\<rparr>,
               \<lparr>label = ''Keyword'', props = [(''word'', Str ''crisis'')]\<rparr>],
      rels = [\<lparr>src = 1, rtype = ''REPRESENTS'', dst = 0, rprops = [(''strength'', Num (5 / 10))]\<rparr>]\<rparr>"
    by (simp add: store_eval)
  from keyword_edge_overwritten [OF a b c, of "''crisis''" "5 / 10" "8 / 10"] a b c d
  show ?thesis by simp
qed

lemma key_chat_chien:
  "generate_topic_key [(''chat'', a), (''chien'', b)] = ''1541bb6ac71a71c3d4e39e6071a1f98f''"
  using md5_digest_chat_chien by (simp add: generate_topic_key_join)

lemma scenario_store:
  "store (create_topic_graph (\<lambda>_. [(''chat'', 9 / 10), (''chien'', 7 / 10)]) [0]
            [''le chat mange'', ''le chien court''] [0, 0]
            \<lparr>store = empty_graph :: real graph, trace = []\<rparr>) =
   \<lparr>nodes = [\<lparr>label = ''Topic'',
               props = [(''key'', Str ''1541bb6ac71a71c3d4e39e6071a1f98f''),
                        (''keywords'', Str ''chat, chien'')]\<rparr>,
             \<lparr>label = ''Document'', props = [(''content'', Str ''le chat mange'')]\<rparr>,
             \<lparr>label = ''Document'', props = [(''content'', Str ''le chien court'')]\<rparr>,
             \<lparr>label = ''Keyword'', props = [(''word'', Str ''chat'')]\<rparr>,
             \<lparr>label = ''Keyword'', props = [(''word'', Str ''chien'')]\<rparr>],
    rels = [\<lparr>src = 1, rtype = ''BELONGS_TO'', dst = 0, rprops = []\<rparr>,
            \<lparr>src = 2, rtype = ''BELONGS_TO'', dst = 0, rprops = []\<rparr>,
            \<lparr>src = 3, rtype = ''REPRESENTS'', dst = 0, rprops = [(''strength'', Num (9 / 10))]\<rparr>,
            \<lparr>src = 4, rtype = ''REPRESENTS'', dst = 0, rprops = [(''strength'', Num (7 / 10))]\<rparr>]\<rparr>"
  by (simp add: create_topic_graph_fold fold_run store_run topic_queries_def doc_queries_def
      keyword_queries_def key_chat_chien empty_graph_def store_eval)

theorem create_topic_graph_idempotent_witness:
  "wf_graph (store \<lparr>store = empty_graph :: real graph, trace = []\<rparr>)
   \<and> store (create_topic_graph (\<lambda>_. [(''chat'', 9 / 10), (''chien'', 7 / 10)]) [0]
              [''le chat mange'', ''le chien court''] [0, 0]
              (create_topic_graph (\<lambda>_. [(''chat'', 9 / 10), (''chien'', 7 / 10)]) [0]
                 [''le chat mange'', ''le chien court''] [0, 0]
                 \<lparr>store = empty_graph :: real graph, trace = []\<rparr>)) =
     \<lparr>nodes = [\<lparr>label = ''Topic'',
                 props = [(''key'', Str ''1541bb6ac71a71c3d4e39e6071a1f98f''),
                          (''keywords'', Str ''chat, chien'')]\<rparr>,
               \<lparr>label = ''Document'', props = [(''content'', Str ''le chat mange'')]\<rparr>,
               \<lparr>label = ''Document'', props = [(''content'', Str ''le chien court'')]\<rparr>,
               \<lparr>label = ''Keyword'', props = [(''word'', Str ''chat'')]\<rparr>,
               \<lparr>label = ''Keyword'', props = [(''word'', Str ''chien'')]\<rparr>],
      rels = [\<lparr>src = 1, rtype = ''BELONGS_TO'', dst = 0, rprops = []\<rparr>,
              \<lparr>src = 2, rtype = ''BELONGS_TO'', dst = 0, rprops = []\<rparr>,
              \<lparr>src = 3, rtype = ''REPRESENTS'', dst = 0, rprops = [(''strength'', Num (9 / 10))]\<rparr>,
              \<lparr>src = 4, rtype = ''REPRESENTS'', dst = 0, rprops = [(''strength'', Num (7 / 10))]\<rparr>]\<rparr>"
proof -
  have h: "wf_graph (store \<lparr>store = empty_graph :: real graph, trace = []\<rparr>)"
    by (simp add: wf_graph_def empty_graph_def)
  from create_topic_graph_idempotent [OF h] scenario_store h show ?thesis
    by (simp only:)
qed

section \<open>The topic batch\<close>

text \<open>
  C3, as the code has it. The topic batch holds one record for each distinct topic id,
  in the iteration order of the set, and is not reduced by key: the number of records
  with a key is the number of distinct topic ids that resolve to it. The reduction is
  the store's: written to a store without duplicates, the batch leaves exactly one
  Topic node for the key of each topic id.
\<close>

theorem topic_batch_per_topic_id:
  fixes get_topic :: "int \<Rightarrow> (string \<times> 'w) list" and g :: "'w graph"
  assumes "set_iteration ids topics"
  shows "length (topic_queries get_topic ids) = card (set topics)
       \<and> map key (topic_queries get_topic ids) = map (\<lambda>tid. generate_topic_key (get_topic tid)) ids
       \<and> length (filter (\<lambda>t. key t = k) (topic_queries get_topic ids)) =
           card {tid \<in> set topics. generate_topic_key (get_topic tid) = k}
       \<and> (no_duplicate_nodes g \<and> tid \<in> set topics \<longrightarrow>
            length (match_nodes ''Topic'' ''key'' (Str (generate_topic_key (get_topic tid)))
                      (exec (TopicUpsert (topic_queries get_topic ids)) g)) = 1)"
proof -
  from assms have d: "distinct ids" and s: "set ids = set topics"
    by (simp_all add: set_iteration_def)
  have "length (topic_queries get_topic ids) = card (set topics)"
    using distinct_card [OF d] s by (simp add: topic_queries_def)
  moreover have "map key (topic_queries get_topic ids) =
      map (\<lambda>tid. generate_topic_key (get_topic tid)) ids"
    by (simp add: topic_queries_def)
  moreover have "length (filter (\<lambda>t. key t = k) (topic_queries get_topic ids)) =
      length (filter (\<lambda>tid. generate_topic_key (get_topic tid) = k) ids)"
    by (simp add: topic_queries_def filter_map comp_def)
  moreover have "{tid \<in> set topics. generate_topic_key (get_topic tid) = k} =
      {tid. generate_topic_key (get_topic tid) = k} \<inter> set ids"
    using s by auto
  moreover have "length (match_nodes ''Topic'' ''key'' (Str (generate_topic_key (get_topic tid)))
      (exec (TopicUpsert (topic_queries get_topic ids)) g)) = 1"
    if g: "no_duplicate_nodes g" and tid: "tid \<in> set topics"
  proof -
    let ?g' = "exec (TopicUpsert (topic_queries get_topic ids)) g"
    let ?r = "\<lparr>key = generate_topic_key (get_topic tid),
               keywords_of = join '', '' (map (\<lambda>(word, proba). word) (get_topic tid))\<rparr>"
    let ?rows = "map TopicRow (topic_queries get_topic ids) :: 'w row list"
    have "topics_first (?rows @ [])"
      by (rule topics_first_append) (simp_all add: list_all_iff)
    moreover have "TopicRow ?r \<in> set ?rows"
      using tid s by (auto simp: topic_queries_def)
    ultimately have "row_done (TopicRow ?r) (fold row_exec ?rows g)"
      using all_rows_done [of ?rows "TopicRow ?r" g] by simp
    then have "match_nodes ''Topic'' ''key'' (Str (generate_topic_key (get_topic tid))) ?g' \<noteq> []"
      by (simp add: exec_rows has_node_def)
    moreover have "no_duplicate_nodes ?g'"
      using g by (rule no_duplicates_exec)
    then have "length (match_nodes ''Topic'' ''key'' (Str (generate_topic_key (get_topic tid))) ?g') \<le> 1"
      by (simp add: no_duplicate_nodes_def)
    ultimately show ?thesis
      by (cases "match_nodes ''Topic'' ''key'' (Str (generate_topic_key (get_topic tid))) ?g'")
        simp_all
  qed
  ultimately show ?thesis
    using distinct_length_filter [OF d] by simp
qed

theorem topic_batch_per_topic_id_witness:
  "set_iteration [0, 1] [0, 1, 0]
   \<and> length (topic_queries (\<lambda>_. [(''a'', 1 :: real)]) [0, 1]) = card (set [0 :: int, 1, 0])
   \<and> no_duplicate_nodes (empty_graph :: real graph)
   \<and> length (match_nodes ''Topic'' ''key'' (Str (generate_topic_key [(''a'', 1 :: real)]))
               (exec (TopicUpsert (topic_queries (\<lambda>_. [(''a'', 1 :: real)]) [0, 1]))
                  (empty_graph :: real graph))) = 1"
proof -
  have h: "set_iteration [0, 1] [0, 1, 0]"
    by (auto simp: set_iteration_def)
  have e: "no_duplicate_nodes (empty_graph :: real graph)"
    by (simp add: no_duplicate_nodes_def match_nodes_def empty_graph_def)
  show ?thesis
    using h e
      topic_batch_per_topic_id [OF h, of "\<lambda>_. [(''a'', 1 :: real)]"
        "generate_topic_key [(''a'', 1 :: real)]" "empty_graph" 0]
    by simp
qed

text \<open>
  The claim C3 fails for two topic ids with the same keyword list: the batch holds two
  records with the one key.
\<close>

theorem topic_batch_counterexample:
  "set_iteration [0, 1] [0, 1]
   \<and> generate_topic_key ((\<lambda>_. [(''a'', 1 :: real)]) (0 :: int)) =
       generate_topic_key ((\<lambda>_. [(''a'', 1 :: real)]) (1 :: int))
   \<and> length (filter (\<lambda>t. key t = generate_topic_key [(''a'', 1 :: real)])
               (topic_queries (\<lambda>_. [(''a'', 1 :: real)]) [0, 1])) = 2"
  by (simp add: set_iteration_def topic_queries_def)

end
